theory Spec2Isabelle
  imports Complex_Main "HOL-Library.Sublist"
begin

section \<open>Choice models of FeedbackLoops4RecSys (\<^verbatim>\<open>choice_models.py\<close>)\<close>

text \<open>
  The embedding follows \<^verbatim>\<open>src/choice_models.py\<close> function by function.
  Conventions:
  \<^item> a float64 value is modelled as the real number it denotes, and \<^verbatim>\<open>0.1\<close> as
    \<open>1/10\<close>; \<^verbatim>\<open>np.exp\<close> underflows to 0 as in float64, the rounding of the other
    results is not modelled;
  \<^item> the recommendations frame is the list of its rows \<open>(user_id, item_id)\<close>, in row order;
  \<^item> the tracks frame is the list of its rows \<open>(index label, country)\<close>, in row order;
  \<^item> the demographics frame is a general frame: its labelled columns, in column order;
  \<^item> every exception the code can raise is a value \<open>Inl e\<close>;
  \<^item> numpy's global random generator is an explicit state: the sequence of the
    uniform draws from \<open>[0, 1)\<close> it will produce, consumed from the front.
\<close>

subsection \<open>Data\<close>

datatype py_error = KeyError | IndexError | ValueError | NotImplementedError string

text \<open>A cell of a frame, or a column label: an integer or a string.\<close>

datatype cell = IntCell int | StrCell string

text \<open>A frame as pandas keeps it: labelled columns, all of one length.\<close>

type_synonym dataframe = "(cell \<times> cell list) list"

type_synonym recommendations = "(int \<times> int) list"

type_synonym tracks = "(int \<times> string) list"

type_synonym rng = "nat \<Rightarrow> real"

subsection \<open>pandas and numpy primitives\<close>

text \<open>\<^verbatim>\<open>df[c]\<close>: the column labelled \<open>c\<close>, KeyError when there is none.\<close>

definition get_column :: "dataframe \<Rightarrow> cell \<Rightarrow> py_error + cell list" where
  "get_column df c = (case map_of df c of None \<Rightarrow> Inl KeyError | Some col \<Rightarrow> Inr col)"

text \<open>Selection of the positions of a list where a boolean mask is true.\<close>

definition select_mask :: "'a list \<Rightarrow> bool list \<Rightarrow> 'a list" where
  "select_mask xs bs = map fst (filter snd (zip xs bs))"

text \<open>\<^verbatim>\<open>df.loc[mask]\<close>: the frame of the rows where the mask is true; the columns stay.\<close>

definition loc_mask :: "dataframe \<Rightarrow> bool list \<Rightarrow> dataframe" where
  "loc_mask df bs = map (\<lambda>(label, col). (label, select_mask col bs)) df"

text \<open>\<^verbatim>\<open>list(df)\<close>: iterating a frame yields its column labels.\<close>

definition list_of_frame :: "dataframe \<Rightarrow> cell list" where
  "list_of_frame df = map fst df"

text \<open>\<^verbatim>\<open>series.unique()\<close>: the distinct values in order of first appearance.\<close>

definition unique :: "'a list \<Rightarrow> 'a list" where
  "unique xs = rev (remdups (rev xs))"

text \<open>
  \<^verbatim>\<open>tracks.iloc[positions]['country']\<close>: positional row selection. A negative position
  counts from the end; a position outside the frame raises IndexError.
\<close>

definition iloc_position :: "tracks \<Rightarrow> int \<Rightarrow> py_error + nat" where
  "iloc_position tracks i =
     (if 0 \<le> i \<and> i < int (length tracks) then Inr (nat i)
      else if i < 0 \<and> - int (length tracks) \<le> i then Inr (nat (int (length tracks) + i))
      else Inl IndexError)"

fun iloc_country :: "tracks \<Rightarrow> int list \<Rightarrow> py_error + string list" where
  "iloc_country tracks [] = Inr []"
| "iloc_country tracks (i # is) =
     (case iloc_position tracks i of
        Inl e \<Rightarrow> Inl e
      | Inr j \<Rightarrow> (case iloc_country tracks is of
                   Inl e \<Rightarrow> Inl e
                 | Inr cs \<Rightarrow> Inr (snd (tracks ! j) # cs)))"

text \<open>\<^verbatim>\<open>np.max\<close>: ValueError on an empty array.\<close>

fun np_max :: "real list \<Rightarrow> py_error + real" where
  "np_max [] = Inl ValueError"
| "np_max (x # xs) = Inr (fold max xs x)"

text \<open>\<^verbatim>\<open>np.cumsum\<close>.\<close>

fun cumsum_from :: "real \<Rightarrow> real list \<Rightarrow> real list" where
  "cumsum_from s [] = []"
| "cumsum_from s (x # xs) = (s + x) # cumsum_from (s + x) xs"

definition cumsum :: "real list \<Rightarrow> real list" where
  "cumsum xs = cumsum_from 0 xs"

text \<open>One uniform draw from \<open>[0, 1)\<close>, and the generator after it.\<close>

definition random_sample :: "rng \<Rightarrow> real \<times> rng" where
  "random_sample g = (g 0, \<lambda>k. g (Suc k))"

text \<open>
  \<^verbatim>\<open>np.random.choice(range(0, n), p=p)\<close>: ValueError when the population is empty, when
  \<open>p\<close> has another length, a negative entry, or does not sum to 1; otherwise the
  position where the draw falls in the cumulative distribution
  (\<^verbatim>\<open>cdf.searchsorted(u, side='right')\<close>: the number of entries \<open>\<le> u\<close>).
\<close>

definition random_choice :: "nat \<Rightarrow> real list \<Rightarrow> rng \<Rightarrow> py_error + (nat \<times> rng)" where
  "random_choice n p g =
     (if n = 0 \<or> length p \<noteq> n \<or> (\<exists>x \<in> set p. x < 0) \<or> sum_list p \<noteq> 1 then Inl ValueError
      else (let cdf = cumsum p;
                cdf' = map (\<lambda>c. c / last cdf) cdf;
                (u, g') = random_sample g
            in Inr (length (filter (\<lambda>c. c \<le> u) cdf'), g')))"

text \<open>
  \<^verbatim>\<open>recs.sample(1)\<close> on a frame of \<open>n\<close> rows: ValueError on an empty frame, otherwise
  the position of one row, drawn with the global generator. pandas draws it through a
  random permutation of the positions; the model abstracts this to one uniform draw
  \<open>u\<close> and the position \<open>\<lfloor>u * n\<rfloor>\<close>. It keeps that the position is one of
  \<open>0, ..., n - 1\<close> and is determined by the state of the generator; it does not
  reproduce which position numpy's generator yields nor how much of its state one call
  consumes.
\<close>

definition sample_one :: "nat \<Rightarrow> rng \<Rightarrow> py_error + (nat \<times> rng)" where
  "sample_one n g =
     (if n = 0 then Inl ValueError
      else (let (u, g') = random_sample g in Inr (nat \<lfloor>u * real n\<rfloor>, g')))"

text \<open>
  \<^verbatim>\<open>p_list / np.sum(p_list)\<close>. A zero sum makes numpy produce nan and inf entries,
  which \<^verbatim>\<open>np.random.choice\<close> then rejects with ValueError; the model raises it here.
\<close>

definition normalize_p :: "real list \<Rightarrow> py_error + real list" where
  "normalize_p p = (if sum_list p = 0 then Inl ValueError else Inr (map (\<lambda>x. x / sum_list p) p))"

text \<open>\<^verbatim>\<open>recs.iloc[i]['item_id']\<close> for the rows of one user.\<close>

definition item_at :: "recommendations \<Rightarrow> nat \<Rightarrow> py_error + int" where
  "item_at recs i = (if i < length recs then Inr (snd (recs ! i)) else Inl IndexError)"

text \<open>\<^verbatim>\<open>recommendations.loc[recommendations['user_id'] == user_id]\<close>.\<close>

definition recs_of :: "recommendations \<Rightarrow> int \<Rightarrow> recommendations" where
  "recs_of recommendations user_id = filter (\<lambda>r. fst r = user_id) recommendations"

subsection \<open>\<^verbatim>\<open>ranked_prob\<close>\<close>

text \<open>
  \<^verbatim>\<open>np.exp\<close> on float64. The smallest positive float64 is \<open>2 ^ -1074\<close>; a result
  of at most half of it, \<open>2 ^ -1075\<close>, is rounded to 0.0 (for an argument below about
  \<open>-745.13\<close>). Above that bound the model returns the exact exponential. Overflow
  does not occur for the arguments \<open>\<le> 0\<close> that a decay rate \<open>alpha \<ge> 0\<close> gives.
\<close>

definition underflow_bound :: real where
  "underflow_bound = 1 / 2 ^ 1075"

definition np_exp :: "real \<Rightarrow> real" where
  "np_exp x = (if exp x \<le> underflow_bound then 0 else exp x)"

definition ranked_prob :: "int \<Rightarrow> real \<Rightarrow> real" where
  "ranked_prob p alpha = np_exp (- alpha * real_of_int p)"

subsection \<open>The loop over the users\<close>

text \<open>
  All three models run \<^verbatim>\<open>for user_id in recommendations['user_id'].unique()\<close> with
  the accumulator \<^verbatim>\<open>acc_list\<close>: the body either appends one row \<open>[user_id, item_id]\<close>
  (\<open>Some\<close>) or leaves the list as it is (\<open>None\<close>, the \<^verbatim>\<open>continue\<close> of
  \<^verbatim>\<open>country_centric\<close>); an exception in the body ends the loop.
\<close>

type_synonym acceptances = "(int \<times> int) list"

fun for_each_user ::
  "(int \<Rightarrow> rng \<Rightarrow> py_error + ((int \<times> int) option \<times> rng)) \<Rightarrow> int list \<Rightarrow> acceptances \<Rightarrow> rng
     \<Rightarrow> py_error + (acceptances \<times> rng)" where
  "for_each_user body [] acc_list g = Inr (acc_list, g)"
| "for_each_user body (user_id # users) acc_list g =
     (case body user_id g of
        Inl e \<Rightarrow> Inl e
      | Inr (None, g') \<Rightarrow> for_each_user body users acc_list g'
      | Inr (Some row, g') \<Rightarrow> for_each_user body users (acc_list @ [row]) g')"

subsection \<open>\<^verbatim>\<open>choice_model_random\<close>\<close>

definition random_user :: "recommendations \<Rightarrow> int \<Rightarrow> rng \<Rightarrow> py_error + ((int \<times> int) option \<times> rng)" where
  "random_user recommendations user_id g =
     (let recs = recs_of recommendations user_id
      in case sample_one (length recs) g of
           Inl e \<Rightarrow> Inl e
         | Inr (i, g') \<Rightarrow> (case item_at recs i of
                            Inl e \<Rightarrow> Inl e
                          | Inr item_id \<Rightarrow> Inr (Some (user_id, item_id), g')))"

definition choice_model_random :: "recommendations \<Rightarrow> rng \<Rightarrow> py_error + (acceptances \<times> rng)" where
  "choice_model_random recommendations g =
     for_each_user (random_user recommendations) (unique (map fst recommendations)) [] g"

subsection \<open>\<^verbatim>\<open>choice_model_rank_based\<close>\<close>

text \<open>Lines 46 and 48: the weights of the ranks \<open>1..N\<close>, divided by their sum.\<close>

definition rank_based_p_list :: "recommendations \<Rightarrow> real \<Rightarrow> py_error + real list" where
  "rank_based_p_list recs alpha =
     (let p_list = map (\<lambda>i. ranked_prob i alpha) [1 .. int (length recs)]
      in normalize_p p_list)"

definition rank_based_user ::
  "recommendations \<Rightarrow> real \<Rightarrow> int \<Rightarrow> rng \<Rightarrow> py_error + ((int \<times> int) option \<times> rng)" where
  "rank_based_user recommendations alpha user_id g =
     (let recs = recs_of recommendations user_id
      in case rank_based_p_list recs alpha of
           Inl e \<Rightarrow> Inl e
         | Inr p_list \<Rightarrow>
             (case random_choice (length recs) p_list g of
                Inl e \<Rightarrow> Inl e
              | Inr (chosen_rec, g') \<Rightarrow>
                  (case item_at recs chosen_rec of
                     Inl e \<Rightarrow> Inl e
                   | Inr item_id \<Rightarrow> Inr (Some (user_id, item_id), g'))))"

definition choice_model_rank_based ::
  "recommendations \<Rightarrow> real \<Rightarrow> rng \<Rightarrow> py_error + (acceptances \<times> rng)" where
  "choice_model_rank_based recommendations alpha g =
     for_each_user (rank_based_user recommendations alpha) (unique (map fst recommendations)) [] g"

subsection \<open>\<^verbatim>\<open>country_centric\<close>\<close>

text \<open>Line 71: \<^verbatim>\<open>tracks.iloc[recs['item_id']]['country'] == country\<close>.\<close>

definition from_country :: "tracks \<Rightarrow> string \<Rightarrow> recommendations \<Rightarrow> py_error + bool list" where
  "from_country tracks country recs =
     (case iloc_country tracks (map snd recs) of
        Inl e \<Rightarrow> Inl e
      | Inr cs \<Rightarrow> Inr (map (\<lambda>c. c = country) cs))"

text \<open>
  Lines 71 to 81: the combined weights \<^verbatim>\<open>ranked_p_list * country_p_mod\<close> of one user's
  candidates. The decay rate of line 74 is the literal \<^verbatim>\<open>0.1\<close>; the parameter
  \<open>alpha\<close> is not read.
\<close>

definition country_p_list ::
  "tracks \<Rightarrow> string \<Rightarrow> real \<Rightarrow> bool \<Rightarrow> real \<Rightarrow> recommendations \<Rightarrow> py_error + real list" where
  "country_p_list tracks country non_country_chance invert alpha recs =
     (case from_country tracks country recs of
        Inl e \<Rightarrow> Inl e
      | Inr fc \<Rightarrow>
          (let ranked_p_list = map (\<lambda>i. ranked_prob i (1 / 10)) [1 .. int (length recs)];
               country_p_mod =
                 (if invert then map (\<lambda>x. if x then non_country_chance else 1) fc
                  else map (\<lambda>x. if x then 1 else non_country_chance) fc)
           in Inr (map (\<lambda>(r, m). r * m) (zip ranked_p_list country_p_mod))))"

definition country_centric_user ::
  "recommendations \<Rightarrow> tracks \<Rightarrow> string \<Rightarrow> real \<Rightarrow> bool \<Rightarrow> real \<Rightarrow> int \<Rightarrow> rng
     \<Rightarrow> py_error + ((int \<times> int) option \<times> rng)" where
  "country_centric_user recommendations tracks country non_country_chance invert alpha user_id g =
     (let recs = recs_of recommendations user_id
      in case country_p_list tracks country non_country_chance invert alpha recs of
           Inl e \<Rightarrow> Inl e
         | Inr p_list \<Rightarrow>
             (case np_max p_list of
                Inl e \<Rightarrow> Inl e
              | Inr m \<Rightarrow>
                  if m = 0 then Inr (None, g)
                  else (case normalize_p p_list of
                          Inl e \<Rightarrow> Inl e
                        | Inr p_list' \<Rightarrow>
                            (case random_choice (length recs) p_list' g of
                               Inl e \<Rightarrow> Inl e
                             | Inr (choice, g') \<Rightarrow>
                                 (case item_at recs choice of
                                    Inl e \<Rightarrow> Inl e
                                  | Inr item_id \<Rightarrow> Inr (Some (user_id, item_id), g'))))))"

definition country_centric ::
  "recommendations \<Rightarrow> tracks \<Rightarrow> string \<Rightarrow> real \<Rightarrow> bool \<Rightarrow> real \<Rightarrow> rng
     \<Rightarrow> py_error + (acceptances \<times> rng)" where
  "country_centric recommendations tracks country non_country_chance invert alpha g =
     for_each_user (country_centric_user recommendations tracks country non_country_chance invert alpha)
       (unique (map fst recommendations)) [] g"

subsection \<open>\<^verbatim>\<open>prefilter_recommendations\<close>\<close>

text \<open>
  \<^verbatim>\<open>if control_country:\<close> is false for \<^verbatim>\<open>None\<close> and for the empty string.
  \<^verbatim>\<open>isin\<close> compares each integer user_id with the entries of \<open>frozen_users\<close>.
\<close>

definition prefilter_recommendations ::
  "recommendations \<Rightarrow> dataframe \<Rightarrow> tracks \<Rightarrow> string option \<Rightarrow> py_error + recommendations" where
  "prefilter_recommendations recommendations demographics tracks control_country =
     (case control_country of
        None \<Rightarrow> Inr recommendations
      | Some cc \<Rightarrow>
          if cc = [] then Inr recommendations
          else (case get_column demographics (StrCell ''country'') of
                  Inl e \<Rightarrow> Inl e
                | Inr col \<Rightarrow>
                    (let frozen_users =
                           list_of_frame (loc_mask demographics (map (\<lambda>v. v = StrCell cc) col))
                     in Inr (filter (\<lambda>r. IntCell (fst r) \<notin> set frozen_users) recommendations))))"

subsection \<open>\<^verbatim>\<open>accept_new_recommendations\<close>\<close>

definition accept_new_recommendations ::
  "string \<Rightarrow> recommendations \<Rightarrow> dataframe \<Rightarrow> tracks \<Rightarrow> int \<Rightarrow> rng
     \<Rightarrow> py_error + (acceptances \<times> rng)" where
  "accept_new_recommendations choice_model recommendations demographics tracks k g =
     (if choice_model = ''random'' then choice_model_random recommendations g
      else if choice_model = ''rank_based'' then choice_model_rank_based recommendations (1 / 10) g
      else if choice_model = ''us_centric''
        then country_centric recommendations tracks ''US'' 0 False (1 / 10) g
      else if choice_model = ''non_us_centric''
        then country_centric recommendations tracks ''US'' 0 True (1 / 10) g
      else Inl (NotImplementedError ''Unknown Choice model!''))"

subsection \<open>The contract of the random source\<close>

text \<open>Every draw of \<^verbatim>\<open>random_sample\<close> lies in \<open>[0, 1)\<close>.\<close>

definition uniform01 :: "rng \<Rightarrow> bool" where
  "uniform01 g = (\<forall>k. 0 \<le> g k \<and> g k < 1)"

text \<open>
  The country modifier of one candidate, as lines 75 to 79 compute it: in non-inverted
  mode 1 for a candidate from the country and \<open>non_country_chance\<close> for another one,
  in inverted mode the other way round.
\<close>

definition country_p_mod :: "real \<Rightarrow> bool \<Rightarrow> bool \<Rightarrow> real" where
  "country_p_mod non_country_chance invert x =
     (if invert then (if x then non_country_chance else 1)
      else (if x then 1 else non_country_chance))"

text \<open>The four names the dispatcher knows.\<close>

definition model_names :: "string set" where
  "model_names = {''random'', ''rank_based'', ''us_centric'', ''non_us_centric''}"

section \<open>Auxiliary facts\<close>

subsection \<open>Primitives\<close>

lemma distinct_unique: "distinct (unique xs)"
  by (simp add: unique_def)

lemma set_unique: "set (unique xs) = set xs"
  by (simp add: unique_def)

lemma uniform01_tail: "uniform01 g \<Longrightarrow> uniform01 (\<lambda>k. g (Suc k))"
  by (simp add: uniform01_def)

lemma length_cumsum_from: "length (cumsum_from s xs) = length xs"
  by (induction xs arbitrary: s) auto

lemma cumsum_from_Nil_iff: "cumsum_from s xs = [] \<longleftrightarrow> xs = []"
  by (cases xs) auto

lemma last_cumsum_from: "xs \<noteq> [] \<Longrightarrow> last (cumsum_from s xs) = s + sum_list xs"
proof (induction xs arbitrary: s)
  case Nil
  then show ?case by simp
next
  case (Cons x xs)
  show ?case
  proof (cases "xs = []")
    case True
    then show ?thesis by simp
  next
    case False
    then show ?thesis using Cons.IH[of "s + x"] by (simp add: cumsum_from_Nil_iff)
  qed
qed

lemma filter_last_fails:
  assumes "xs \<noteq> []" "\<not> P (last xs)"
  shows "length (filter P xs) < length xs"
proof -
  have "last xs \<in> set xs" using assms by simp
  then show ?thesis using assms(2) by (meson length_filter_less)
qed

lemma random_choice_in_range:
  assumes "random_choice n p g = Inr (i, g')" "g 0 < 1"
  shows "i < n \<and> g' = (\<lambda>k. g (Suc k))"
proof -
  from assms(1) have v: "n \<noteq> 0" "length p = n" "sum_list p = 1"
    by (auto simp: random_choice_def split: if_splits)
  then have ne: "p \<noteq> []" by auto
  have l: "last (cumsum p) = 1"
    using ne v by (simp add: cumsum_def last_cumsum_from)
  let ?cdf = "map (\<lambda>c. c / last (cumsum p)) (cumsum p)"
  have ne': "?cdf \<noteq> []" using ne by (cases p) (auto simp: cumsum_def)
  have "last ?cdf = 1" using ne' l by (simp add: last_map)
  then have "\<not> (last ?cdf \<le> g 0)" using assms(2) by simp
  then have "length (filter (\<lambda>c. c \<le> g 0) ?cdf) < length ?cdf"
    using ne' filter_last_fails[of ?cdf "\<lambda>c. c \<le> g 0"] by blast
  moreover have "length ?cdf = n" using v by (simp add: cumsum_def length_cumsum_from)
  moreover have "i = length (filter (\<lambda>c. c \<le> g 0) ?cdf)" "g' = (\<lambda>k. g (Suc k))"
    using assms(1) v by (auto simp: random_choice_def random_sample_def Let_def split: if_splits)
  ultimately show ?thesis by simp
qed

lemma random_choice_succeeds:
  assumes "n \<noteq> 0" "length p = n" "\<forall>x\<in>set p. 0 \<le> x" "sum_list p = 1"
  shows "\<exists>i. random_choice n p g = Inr (i, \<lambda>k. g (Suc k))"
  using assms by (auto simp: random_choice_def random_sample_def Let_def not_less)

lemma sample_one_in_range:
  assumes "sample_one n g = Inr (i, g')" "0 \<le> g 0" "g 0 < 1"
  shows "i < n \<and> g' = (\<lambda>k. g (Suc k))"
proof -
  from assms(1) have n: "n \<noteq> 0" and i: "i = nat \<lfloor>g 0 * real n\<rfloor>" and g: "g' = (\<lambda>k. g (Suc k))"
    by (auto simp: sample_one_def random_sample_def split: if_splits)
  have "g 0 * real n < real n" using assms(3) n by simp
  then have "\<lfloor>g 0 * real n\<rfloor> < int n" by (simp add: floor_less_iff)
  then show ?thesis using i g n by simp
qed

subsection \<open>The loop\<close>

lemma for_each_user_emitted:
  assumes "for_each_user body users acc g = Inr (out, g')"
    and "\<And>u h r h'. u \<in> set users \<Longrightarrow> body u h = Inr (Some r, h') \<Longrightarrow> fst r = u \<and> emits u \<and> r \<in> R"
    and "\<And>u h h'. u \<in> set users \<Longrightarrow> body u h = Inr (None, h') \<Longrightarrow> \<not> emits u"
  shows "\<exists>rows. out = acc @ rows \<and> map fst rows = filter emits users \<and> set rows \<subseteq> R"
  using assms
proof (induction users arbitrary: acc g)
  case Nil
  then show ?case by simp
next
  case (Cons u users)
  from Cons.prems(1) obtain r h where b: "body u g = Inr (r, h)"
    by (auto split: sum.splits)
  show ?case
  proof (cases r)
    case None
    with b Cons.prems(1) have l: "for_each_user body users acc h = Inr (out, g')" by simp
    have ne: "\<not> emits u" using Cons.prems(3)[of u g h] b None by simp
    from Cons.IH[OF l] Cons.prems(2,3) obtain rows where
      "out = acc @ rows" "map fst rows = filter emits users" "set rows \<subseteq> R"
      by (metis list.set_intros(2))
    then show ?thesis using ne by auto
  next
    case (Some row)
    with b Cons.prems(1) have l: "for_each_user body users (acc @ [row]) h = Inr (out, g')" by simp
    have e: "fst row = u \<and> emits u \<and> row \<in> R" using Cons.prems(2)[of u g row h] b Some by simp
    from Cons.IH[OF l] Cons.prems(2,3) obtain rows where
      "out = (acc @ [row]) @ rows" "map fst rows = filter emits users" "set rows \<subseteq> R"
      by (metis list.set_intros(2))
    then have "out = acc @ (row # rows) \<and> map fst (row # rows) = filter emits (u # users) \<and> set (row # rows) \<subseteq> R"
      using e by simp
    then show ?thesis by blast
  qed
qed

lemma for_each_user_total:
  assumes "\<And>u h. u \<in> set users \<Longrightarrow> uniform01 h \<Longrightarrow> \<exists>r h'. body u h = Inr (r, h') \<and> uniform01 h'"
    and "uniform01 g"
  shows "\<exists>out g'. for_each_user body users acc g = Inr (out, g')"
  using assms
proof (induction users arbitrary: acc g)
  case Nil
  then show ?case by simp
next
  case (Cons u users)
  from Cons.prems(1)[of u g] Cons.prems(2) obtain r h where b: "body u g = Inr (r, h)" "uniform01 h"
    by auto
  have step: "\<And>v k. v \<in> set users \<Longrightarrow> uniform01 k \<Longrightarrow> \<exists>r h'. body v k = Inr (r, h') \<and> uniform01 h'"
    using Cons.prems(1) by simp
  show ?case
  proof (cases r)
    case None
    then show ?thesis using b Cons.IH[OF step b(2), of acc] by simp
  next
    case (Some row)
    then show ?thesis using b Cons.IH[OF step b(2), of "acc @ [row]"] by simp
  qed
qed

lemma for_each_user_error:
  assumes "for_each_user body users acc g = Inl e"
  shows "\<exists>u h. u \<in> set users \<and> body u h = Inl e"
  using assms
proof (induction users arbitrary: acc g)
  case Nil
  then show ?case by simp
next
  case (Cons u users)
  show ?case
  proof (cases "body u g")
    case (Inl e')
    then show ?thesis using Cons.prems by auto
  next
    case (Inr p)
    obtain r h where p: "p = (r, h)" by (cases p)
    have "\<exists>acc'. for_each_user body users acc' h = Inl e"
      using Cons.prems Inr p by (cases r) auto
    then show ?thesis using Cons.IH by (metis list.set_intros(2))
  qed
qed

lemma for_each_user_cong:
  assumes "\<And>u h. u \<in> set users \<Longrightarrow> body u h = body' u h"
  shows "for_each_user body users acc g = for_each_user body' users acc g"
  using assms
proof (induction users arbitrary: acc g)
  case Nil
  then show ?case by simp
next
  case (Cons u users)
  have "body u g = body' u g" using Cons.prems by simp
  moreover have "\<And>a h. for_each_user body users a h = for_each_user body' users a h"
    using Cons.IH Cons.prems by simp
  ultimately show ?case by (simp split: sum.splits option.splits prod.splits)
qed

lemma count_filter_distinct:
  assumes "distinct users"
  shows "length (filter (\<lambda>v. v = u) (filter emits users)) = (if u \<in> set users \<and> emits u then 1 else 0)"
  using assms by (induction users) auto

subsection \<open>One user\<close>

lemma underflow_bound_pos: "0 < underflow_bound"
  by (simp add: underflow_bound_def)

lemma underflow_bound_less_third: "underflow_bound < 1 / 3"
proof -
  have "(2 :: real) ^ 2 \<le> 2 ^ 1075" by (rule power_increasing) simp_all
  moreover have "(2 :: real) ^ 2 = 4" by simp
  ultimately have "(3 :: real) < 2 ^ 1075" by linarith
  then show ?thesis unfolding underflow_bound_def by (intro divide_strict_left_mono) simp_all
qed

lemma np_exp_nonneg: "0 \<le> np_exp x"
  by (simp add: np_exp_def)



lemma np_exp_exact:
  assumes "- 1 \<le> x"
  shows "np_exp x = exp x" and "0 < np_exp x"
proof -
  have "exp 1 \<le> (3 :: real)" by (rule exp_le)
  then have "1 / 3 \<le> 1 / exp (1 :: real)" by (intro divide_left_mono) simp_all
  also have "\<dots> = exp (- 1 :: real)" by (simp add: exp_minus field_simps)
  also have "\<dots> \<le> exp x" using assms by simp
  finally have "1 / 3 \<le> exp x" .
  then have "underflow_bound < exp x" using underflow_bound_less_third by linarith
  then show "np_exp x = exp x" by (simp add: np_exp_def)
  then show "0 < np_exp x" by simp
qed


lemma np_exp_underflow:
  assumes "x \<le> - 2000"
  shows "np_exp x = 0"
proof -
  have "(2 :: real) \<le> exp 1" using exp_ge_add_one_self[of "1 :: real"] by simp
  then have "(2 :: real) ^ 2000 \<le> exp 1 ^ 2000" by (intro power_mono) simp_all
  also have "\<dots> = exp (2000 :: real)" using exp_of_nat_mult[of 2000 "1 :: real"] by simp
  finally have a: "(2 :: real) ^ 2000 \<le> exp 2000" .
  have "(2 :: real) ^ 1075 \<le> 2 ^ 2000" by (rule power_increasing) simp_all
  with a have b: "(2 :: real) ^ 1075 \<le> exp 2000" by linarith
  have "exp x \<le> exp (- 2000 :: real)" using assms by simp
  also have "\<dots> = 1 / exp (2000 :: real)" by (simp add: exp_minus field_simps)
  also have "\<dots> \<le> 1 / 2 ^ 1075" using b by (intro divide_left_mono) simp_all
  finally show ?thesis by (simp add: np_exp_def underflow_bound_def)
qed

lemma ranked_prob_nonneg: "0 \<le> ranked_prob p alpha"
  by (simp add: ranked_prob_def np_exp_nonneg)

lemma ranked_prob_exact:
  assumes "alpha * real_of_int p \<le> 1"
  shows "ranked_prob p alpha = exp (- alpha * real_of_int p)" and "0 < ranked_prob p alpha"
  using assms np_exp_exact[of "- alpha * real_of_int p"] by (simp_all add: ranked_prob_def)

lemma ranked_prob_first_pos: "0 < ranked_prob 1 (1 / 10)"
  by (rule ranked_prob_exact(2)) simp

lemma ranked_prob_ranks:
  "ranked_prob 1 (1 / 10) = exp (- (1 / 10))"
  "ranked_prob 2 (1 / 10) = exp (- (1 / 5))"
  "ranked_prob 1 (1 / 5) = exp (- (1 / 5))"
  using ranked_prob_exact(1)[of "1 / 10" 1] ranked_prob_exact(1)[of "1 / 10" 2]
    ranked_prob_exact(1)[of "1 / 5" 1]
  by simp_all

lemma ranked_prob_underflow:
  assumes "2000 \<le> alpha * real_of_int p"
  shows "ranked_prob p alpha = 0"
  using assms np_exp_underflow[of "- alpha * real_of_int p"] by (simp add: ranked_prob_def)




lemma length_ranks: "length [1 .. int n] = n"
  by simp

lemma sum_list_pos_real:
  fixes p :: "real list"
  assumes "p \<noteq> []" "\<forall>x\<in>set p. 0 \<le> x" "\<exists>x\<in>set p. 0 < x"
  shows "0 < sum_list p"
  using assms
proof (induction p)
  case Nil
  then show ?case by simp
next
  case (Cons a p)
  have nn: "0 \<le> sum_list p" using Cons.prems(2) by (simp add: sum_list_nonneg)
  show ?case
  proof (cases "0 < a")
    case True
    then show ?thesis using nn by simp
  next
    case False
    then have a: "a = 0" using Cons.prems(2) by simp
    then have "\<exists>x\<in>set p. 0 < x" using Cons.prems(3) by auto
    moreover from this have "p \<noteq> []" by auto
    ultimately have "0 < sum_list p" using Cons.IH Cons.prems(2) by simp
    then show ?thesis using a by simp
  qed
qed

lemma sum_list_divide:
  fixes p :: "real list"
  shows "sum_list (map (\<lambda>x. x / s) p) = sum_list p / s"
  by (induction p) (auto simp: add_divide_distrib)

lemma normalize_p_valid:
  assumes "p \<noteq> []" "\<forall>x\<in>set p. 0 \<le> x" "\<exists>x\<in>set p. 0 < x"
  shows "\<exists>q. normalize_p p = Inr q \<and> length q = length p \<and> (\<forall>x\<in>set q. 0 \<le> x) \<and> sum_list q = 1"
proof -
  have s: "0 < sum_list p" using assms by (rule sum_list_pos_real)
  then have "normalize_p p = Inr (map (\<lambda>x. x / sum_list p) p)"
    by (simp add: normalize_p_def)
  moreover have "sum_list (map (\<lambda>x. x / sum_list p) p) = 1"
    using s by (simp add: sum_list_divide)
  moreover have "\<forall>x\<in>set (map (\<lambda>x. x / sum_list p) p). 0 \<le> x"
    using assms(2) s by auto
  ultimately show ?thesis by simp
qed

lemma rank_based_p_list_valid:
  assumes "recs \<noteq> []" "0 < ranked_prob 1 alpha"
  shows "\<exists>q. rank_based_p_list recs alpha = Inr q \<and> length q = length recs
             \<and> (\<forall>x\<in>set q. 0 \<le> x) \<and> sum_list q = 1"
proof -
  let ?p = "map (\<lambda>i. ranked_prob i alpha) [1 .. int (length recs)]"
  have l: "length ?p = length recs" by simp
  then have ne: "?p \<noteq> []" using assms(1) by (metis length_0_conv)
  have nn: "\<forall>x\<in>set ?p. 0 \<le> x" by (auto simp: ranked_prob_nonneg)
  have "1 \<le> int (length recs)" using assms(1) by (cases recs) simp_all
  then have "ranked_prob 1 alpha \<in> set ?p" by auto
  then have ex: "\<exists>x\<in>set ?p. 0 < x" using assms(2) by blast
  from normalize_p_valid[OF ne nn ex] l show ?thesis
    by (auto simp: rank_based_p_list_def)
qed

lemma recs_of_nonempty: "u \<in> fst ` set recs \<Longrightarrow> recs_of recs u \<noteq> []"
  by (auto simp: recs_of_def filter_empty_conv)

lemma recs_of_subset: "r \<in> set (recs_of recs u) \<Longrightarrow> fst r = u \<and> r \<in> set recs"
  by (auto simp: recs_of_def)

lemma item_at_row: "item_at rs i = Inr item \<Longrightarrow> (fst (rs ! i), item) \<in> set rs"
  by (auto simp: item_at_def split: if_splits)

lemma item_at_recs_of:
  assumes "item_at (recs_of recs u) i = Inr item"
  shows "(u, item) \<in> set recs"
proof -
  have "(fst (recs_of recs u ! i), item) \<in> set (recs_of recs u)" using assms by (rule item_at_row)
  then show ?thesis using recs_of_subset by fastforce
qed

lemma random_user_row:
  assumes "random_user recs u g = Inr (r, h)"
  shows "\<exists>item. r = Some (u, item) \<and> (u, item) \<in> set recs"
  using assms item_at_recs_of[of recs u]
  by (auto simp: random_user_def Let_def split: sum.splits)

lemma random_user_total:
  assumes "u \<in> fst ` set recs" "uniform01 g"
  shows "\<exists>r. random_user recs u g = Inr (r, \<lambda>k. g (Suc k))"
proof -
  let ?rs = "recs_of recs u"
  have n: "length ?rs \<noteq> 0" using recs_of_nonempty[OF assms(1)] by simp
  then obtain i h where s: "sample_one (length ?rs) g = Inr (i, h)"
    by (auto simp: sample_one_def random_sample_def)
  have u: "0 \<le> g 0" "g 0 < 1" using assms(2) by (auto simp: uniform01_def)
  from sample_one_in_range[OF s u] have "i < length ?rs" "h = (\<lambda>k. g (Suc k))" by auto
  then show ?thesis using s by (simp add: random_user_def item_at_def)
qed

lemma rank_based_user_row:
  assumes "rank_based_user recs alpha u g = Inr (r, h)"
  shows "\<exists>item. r = Some (u, item) \<and> (u, item) \<in> set recs"
  using assms item_at_recs_of[of recs u]
  by (auto simp: rank_based_user_def Let_def split: sum.splits)

lemma rank_based_user_total:
  assumes "u \<in> fst ` set recs" "uniform01 g" "0 < ranked_prob 1 alpha"
  shows "\<exists>r. rank_based_user recs alpha u g = Inr (r, \<lambda>k. g (Suc k))"
proof -
  let ?rs = "recs_of recs u"
  have ne: "?rs \<noteq> []" using assms(1) by (rule recs_of_nonempty)
  from rank_based_p_list_valid[OF ne assms(3)] obtain q where
    q: "rank_based_p_list ?rs alpha = Inr q" "length q = length ?rs" "\<forall>x\<in>set q. 0 \<le> x" "sum_list q = 1"
    by blast
  have n: "length ?rs \<noteq> 0" using ne by simp
  from random_choice_succeeds[OF n q(2) q(3) q(4)] obtain i where
    c: "random_choice (length ?rs) q g = Inr (i, \<lambda>k. g (Suc k))" by blast
  have "g 0 < 1" using assms(2) by (simp add: uniform01_def)
  from random_choice_in_range[OF c this] have "i < length ?rs" by simp
  then show ?thesis using q(1) c by (simp add: rank_based_user_def item_at_def)
qed

lemma np_max_Max:
  assumes "w \<noteq> []"
  shows "np_max w = Inr (Max (set w))"
proof (cases w)
  case Nil
  then show ?thesis using assms by simp
next
  case (Cons a as)
  have "fold max as a = Max (set (a # as))" by (simp only: Max.set_eq_fold)
  then show ?thesis using Cons by simp
qed

lemma Max_zero_iff_all_zero:
  fixes w :: "real list"
  assumes "w \<noteq> []" "(\<forall>x\<in>set w. 0 \<le> x) \<or> (\<forall>x\<in>set w. x \<noteq> 0)"
  shows "Max (set w) = 0 \<longleftrightarrow> (\<forall>x\<in>set w. x = 0)"
proof
  assume m: "Max (set w) = 0"
  have mem: "Max (set w) \<in> set w" using assms(1) by simp
  have le: "\<forall>x\<in>set w. x \<le> 0" using m by (metis Max_ge List.finite_set)
  from assms(2) show "\<forall>x\<in>set w. x = 0"
  proof
    assume "\<forall>x\<in>set w. 0 \<le> x"
    then show ?thesis using le by fastforce
  next
    assume "\<forall>x\<in>set w. x \<noteq> 0"
    then show ?thesis using mem m by auto
  qed
next
  assume "\<forall>x\<in>set w. x = 0"
  moreover have "Max (set w) \<in> set w" using assms(1) by simp
  ultimately show "Max (set w) = 0" by blast
qed

lemma iloc_country_length: "iloc_country tracks is = Inr cs \<Longrightarrow> length cs = length is"
  by (induction "is" arbitrary: cs) (auto split: sum.splits)

lemma from_country_length: "from_country tracks country recs = Inr fc \<Longrightarrow> length fc = length recs"
  by (auto simp: from_country_def split: sum.splits dest: iloc_country_length)


lemma country_p_list_weights:
  assumes "country_p_list tracks country ncc invert alpha recs = Inr w"
  shows "\<exists>fc. from_country tracks country recs = Inr fc \<and> length w = length recs
     \<and> (\<forall>k<length recs. w ! k = ranked_prob (int k + 1) (1 / 10) * country_p_mod ncc invert (fc ! k))"
proof -
  from assms obtain fc where fc: "from_country tracks country recs = Inr fc"
    by (auto simp: country_p_list_def split: sum.splits)
  have l: "length fc = length recs" using fc by (rule from_country_length)
  have w: "w = map (\<lambda>(r, m). r * m)
                 (zip (map (\<lambda>i. ranked_prob i (1 / 10)) [1 .. int (length recs)])
                      (map (country_p_mod ncc invert) fc))"
    using assms fc by (cases invert) (auto simp: country_p_list_def country_p_mod_def[abs_def] Let_def)
  have "length w = length recs" using l by (simp add: w)
  moreover have "\<forall>k<length recs. w ! k = ranked_prob (int k + 1) (1 / 10) * country_p_mod ncc invert (fc ! k)"
    using l by (auto simp: w algebra_simps)
  ultimately show ?thesis using fc by blast
qed

lemma country_weights_nonneg:
  assumes "country_p_list tracks country ncc invert alpha recs = Inr w" "0 \<le> ncc"
  shows "\<forall>x\<in>set w. 0 \<le> x"
proof
  from country_p_list_weights[OF assms(1)] obtain fc where
    l: "length w = length recs" and
    w: "\<forall>k<length recs. w ! k = ranked_prob (int k + 1) (1 / 10) * country_p_mod ncc invert (fc ! k)"
    by blast
  fix x assume "x \<in> set w"
  then obtain k where k: "k < length w" "x = w ! k" by (auto simp: in_set_conv_nth)
  have "0 \<le> country_p_mod ncc invert (fc ! k)" using assms(2) by (simp add: country_p_mod_def)
  then show "0 \<le> x" using k l w ranked_prob_nonneg[of "int k + 1" "1 / 10"] by simp
qed

lemma country_max_zero_iff:
  assumes "country_p_list tracks country ncc invert alpha recs = Inr w" "recs \<noteq> []" "0 \<le> ncc"
  shows "\<exists>m. np_max w = Inr m \<and> (m = 0 \<longleftrightarrow> (\<forall>x\<in>set w. x = 0))"
proof -
  from country_p_list_weights[OF assms(1)] have "length w = length recs" by blast
  then have ne: "w \<noteq> []" using assms(2) by auto
  show ?thesis
    using np_max_Max[OF ne] Max_zero_iff_all_zero[OF ne]
      country_weights_nonneg[OF assms(1) assms(3)]
    by simp
qed

lemma country_centric_user_skip:
  assumes "country_p_list tracks country ncc invert alpha (recs_of recs u) = Inr w"
    and "u \<in> fst ` set recs" "\<forall>x\<in>set w. x = 0" "0 \<le> ncc"
  shows "country_centric_user recs tracks country ncc invert alpha u g = Inr (None, g)"
proof -
  from country_max_zero_iff[OF assms(1) recs_of_nonempty[OF assms(2)] assms(4)] assms(3)
  have "np_max w = Inr 0" by auto
  then show ?thesis using assms(1) by (simp add: country_centric_user_def)
qed

lemma country_centric_user_accept:
  assumes "country_p_list tracks country ncc invert alpha (recs_of recs u) = Inr w"
    and "u \<in> fst ` set recs" "\<not> (\<forall>x\<in>set w. x = 0)" "0 \<le> ncc" "uniform01 g"
  shows "\<exists>item. country_centric_user recs tracks country ncc invert alpha u g
                 = Inr (Some (u, item), \<lambda>k. g (Suc k)) \<and> (u, item) \<in> set recs"
proof -
  let ?rs = "recs_of recs u"
  have rne: "?rs \<noteq> []" using assms(2) by (rule recs_of_nonempty)
  from country_max_zero_iff[OF assms(1) rne assms(4)] assms(3)
  obtain m where m: "np_max w = Inr m" "m \<noteq> 0" by auto
  from country_p_list_weights[OF assms(1)] have l: "length w = length ?rs" by blast
  then have ne: "w \<noteq> []" using rne by auto
  have nn: "\<forall>x\<in>set w. 0 \<le> x" using country_weights_nonneg[OF assms(1) assms(4)] .
  have ex: "\<exists>x\<in>set w. 0 < x" using assms(3) nn by fastforce
  from normalize_p_valid[OF ne nn ex] obtain q where
    q: "normalize_p w = Inr q" "length q = length w" "\<forall>x\<in>set q. 0 \<le> x" "sum_list q = 1"
    by blast
  have n: "length ?rs \<noteq> 0" using rne by simp
  have lq: "length q = length ?rs" using q(2) l by simp
  from random_choice_succeeds[OF n lq q(3) q(4)] obtain i where
    c: "random_choice (length ?rs) q g = Inr (i, \<lambda>k. g (Suc k))" by blast
  have "g 0 < 1" using assms(5) by (simp add: uniform01_def)
  from random_choice_in_range[OF c this] have i: "i < length ?rs" by simp
  then have it: "item_at ?rs i = Inr (snd (?rs ! i))" by (simp add: item_at_def)
  have "country_centric_user recs tracks country ncc invert alpha u g
          = Inr (Some (u, snd (?rs ! i)), \<lambda>k. g (Suc k))"
    using assms(1) m q(1) c it by (simp add: country_centric_user_def)
  moreover have "(u, snd (?rs ! i)) \<in> set recs" using it by (rule item_at_recs_of)
  ultimately show ?thesis by blast
qed

lemma country_centric_user_result:
  assumes "country_centric_user recs tracks country ncc invert alpha u g = Inr (r, h)"
  shows "\<exists>w m. country_p_list tracks country ncc invert alpha (recs_of recs u) = Inr w
           \<and> np_max w = Inr m
           \<and> (case r of None \<Rightarrow> m = 0
               | Some row \<Rightarrow> m \<noteq> 0 \<and> fst row = u \<and> row \<in> set recs)"
proof -
  from assms obtain w m where w: "country_p_list tracks country ncc invert alpha (recs_of recs u) = Inr w"
    and m: "np_max w = Inr m"
    by (auto simp: country_centric_user_def Let_def split: sum.splits)
  show ?thesis
  proof (cases "m = 0")
    case True
    then have "r = None" using assms w m by (simp add: country_centric_user_def)
    then show ?thesis using w m True by auto
  next
    case False
    then obtain item where "r = Some (u, item)" "(u, item) \<in> set recs"
      using assms w m item_at_recs_of[of recs u]
      by (auto simp: country_centric_user_def Let_def split: sum.splits)
    then show ?thesis using w m False by auto
  qed
qed

subsection \<open>Whole models\<close>

lemma loop_rows_all:
  assumes out: "for_each_user body (unique (map fst recs)) [] g = Inr (out, g')"
    and row: "\<And>u h r h'. body u h = Inr (r, h') \<Longrightarrow> \<exists>item. r = Some (u, item) \<and> (u, item) \<in> set recs"
  shows "distinct (map fst out) \<and> fst ` set out = fst ` set recs \<and> set out \<subseteq> set recs"
proof -
  have a: "\<And>u h r h'. u \<in> set (unique (map fst recs)) \<Longrightarrow> body u h = Inr (Some r, h')
             \<Longrightarrow> fst r = u \<and> True \<and> r \<in> set recs"
    using row by fastforce
  have b: "\<And>u h h'. u \<in> set (unique (map fst recs)) \<Longrightarrow> body u h = Inr (None, h') \<Longrightarrow> \<not> True"
    using row by fastforce
  have "\<exists>rows. out = [] @ rows \<and> map fst rows = filter (\<lambda>_. True) (unique (map fst recs))
           \<and> set rows \<subseteq> set recs"
    using out a b by (rule for_each_user_emitted)
  then have m: "map fst out = unique (map fst recs)" and s: "set out \<subseteq> set recs" by auto
  have "distinct (map fst out)" using m by (simp add: distinct_unique)
  moreover have "fst ` set out = fst ` set recs"
    using m set_unique[of "map fst recs"] by (metis set_map)
  ultimately show ?thesis using s by simp
qed

lemma country_centric_rows:
  assumes "country_centric recs tracks country ncc invert a g = Inr (out, g')"
  shows "map fst out =
           filter (\<lambda>u. case country_p_list tracks country ncc invert a (recs_of recs u) of
                          Inl e \<Rightarrow> False | Inr w \<Rightarrow> np_max w \<noteq> Inr 0)
                  (unique (map fst recs))
         \<and> set out \<subseteq> set recs"
proof -
  let ?emits = "\<lambda>u. case country_p_list tracks country ncc invert a (recs_of recs u) of
                          Inl e \<Rightarrow> False | Inr w \<Rightarrow> np_max w \<noteq> Inr 0"
  let ?body = "country_centric_user recs tracks country ncc invert a"
  let ?users = "unique (map fst recs)"
  have l: "for_each_user ?body ?users [] g = Inr (out, g')"
    using assms by (simp add: country_centric_def)
  have s: "fst r = u \<and> ?emits u \<and> r \<in> set recs"
    if "u \<in> set ?users" "?body u h = Inr (Some r, h')" for u h r h'
    using country_centric_user_result[OF that(2)] by auto
  have n: "\<not> ?emits u" if "u \<in> set ?users" "?body u h = Inr (None, h')" for u h h'
    using country_centric_user_result[OF that(2)] by auto
  have "\<exists>rows. out = [] @ rows \<and> map fst rows = filter ?emits ?users \<and> set rows \<subseteq> set recs"
    using l s n by (rule for_each_user_emitted)
  then show ?thesis by simp
qed

lemma iloc_country_succeeds:
  assumes "\<forall>i\<in>set is. \<exists>j. iloc_position tracks i = Inr j"
  shows "\<exists>cs. iloc_country tracks is = Inr cs"
  using assms by (induction "is") (auto split: sum.splits)

lemma country_p_list_succeeds:
  assumes "\<forall>r\<in>set recs. \<exists>j. iloc_position tracks (snd r) = Inr j"
  shows "\<exists>w. country_p_list tracks country ncc invert alpha recs = Inr w"
proof -
  have "\<forall>i\<in>set (map snd recs). \<exists>j. iloc_position tracks i = Inr j" using assms by simp
  from iloc_country_succeeds[OF this] obtain cs where "iloc_country tracks (map snd recs) = Inr cs"
    by blast
  then show ?thesis by (simp add: country_p_list_def from_country_def Let_def)
qed

lemma country_centric_total:
  assumes "uniform01 g" "0 \<le> ncc" "\<forall>r\<in>set recs. \<exists>j. iloc_position tracks (snd r) = Inr j"
  shows "\<exists>out g'. country_centric recs tracks country ncc invert alpha g = Inr (out, g')"
proof -
  let ?users = "unique (map fst recs)"
  let ?body = "country_centric_user recs tracks country ncc invert alpha"
  have "\<exists>r h'. ?body u h = Inr (r, h') \<and> uniform01 h'" if "u \<in> set ?users" "uniform01 h" for u h
  proof -
    have mem: "u \<in> fst ` set recs" using that(1) by (simp add: set_unique)
    have "\<forall>r\<in>set (recs_of recs u). \<exists>j. iloc_position tracks (snd r) = Inr j"
      using assms(3) by (simp add: recs_of_def)
    from country_p_list_succeeds[OF this] obtain w where
      w: "country_p_list tracks country ncc invert alpha (recs_of recs u) = Inr w" by blast
    show ?thesis
    proof (cases "\<forall>x\<in>set w. x = 0")
      case True
      from country_centric_user_skip[OF w mem True assms(2)] that(2) show ?thesis by blast
    next
      case False
      from country_centric_user_accept[OF w mem False assms(2) that(2)] uniform01_tail[OF that(2)]
      show ?thesis by blast
    qed
  qed
  then have "\<exists>out g'. for_each_user ?body ?users [] g = Inr (out, g')"
    using assms(1) by (rule for_each_user_total)
  then show ?thesis by (simp add: country_centric_def)
qed

lemma count_rows_of_user:
  assumes "map fst out = filter emits users" "distinct users"
  shows "length (filter (\<lambda>r. fst r = u) out) = (if u \<in> set users \<and> emits u then 1 else 0)"
proof -
  have "length (filter (\<lambda>r. fst r = u) out) = length (filter (\<lambda>v. v = u) (map fst out))"
    by (induction out) auto
  then show ?thesis using assms count_filter_distinct[of users u emits] by simp
qed

lemma map2_times_one:
  fixes xs :: "real list"
  assumes "length xs = length bs"
  shows "map (\<lambda>(r, m). r * m) (zip xs (map (\<lambda>x. 1) bs)) = xs"
  using assms by (induction xs bs rule: list_induct2) auto

lemma country_p_list_no_bias:
  assumes "from_country tracks country recs = Inr fc"
  shows "country_p_list tracks country 1 invert alpha recs
           = Inr (map (\<lambda>i. ranked_prob i (1 / 10)) [1 .. int (length recs)])"
proof -
  have l: "length (map (\<lambda>i. ranked_prob i (1 / 10)) [1 .. int (length recs)]) = length fc"
    using from_country_length[OF assms] by simp
  show ?thesis using assms map2_times_one[OF l]
    by (simp add: country_p_list_def Let_def)
qed

lemma country_centric_user_no_bias:
  assumes "u \<in> fst ` set recs" "from_country tracks country (recs_of recs u) = Inr fc"
  shows "country_centric_user recs tracks country 1 invert alpha u g = rank_based_user recs (1 / 10) u g"
    and "\<exists>w. country_p_list tracks country 1 invert alpha (recs_of recs u) = Inr w
            \<and> np_max w \<noteq> Inr 0 \<and> normalize_p w = rank_based_p_list (recs_of recs u) (1 / 10)"
proof -
  let ?rs = "recs_of recs u"
  let ?w = "map (\<lambda>i. ranked_prob i (1 / 10)) [1 .. int (length ?rs)]"
  have w: "country_p_list tracks country 1 invert alpha ?rs = Inr ?w"
    using assms(2) by (rule country_p_list_no_bias)
  have rne: "?rs \<noteq> []" using assms(1) by (rule recs_of_nonempty)
  then have "length ?w \<noteq> 0" by simp
  then have wne: "?w \<noteq> []" by (metis length_0_conv)
  have "1 \<le> int (length ?rs)" using rne by (cases ?rs) simp_all
  then have "ranked_prob 1 (1 / 10) \<in> set ?w" by auto
  then have "\<not> (\<forall>x\<in>set ?w. x = 0)" using ranked_prob_first_pos by force
  moreover have "(0 :: real) \<le> 1" by simp
  ultimately obtain m where m: "np_max ?w = Inr m" "m \<noteq> 0"
    using country_max_zero_iff[OF w rne] by blast
  have n: "normalize_p ?w = rank_based_p_list ?rs (1 / 10)" by (simp add: rank_based_p_list_def)
  show "country_centric_user recs tracks country 1 invert alpha u g = rank_based_user recs (1 / 10) u g"
    using w m by (simp add: country_centric_user_def rank_based_user_def rank_based_p_list_def)
  show "\<exists>w. country_p_list tracks country 1 invert alpha (recs_of recs u) = Inr w
            \<and> np_max w \<noteq> Inr 0 \<and> normalize_p w = rank_based_p_list (recs_of recs u) (1 / 10)"
    using w m n by auto
qed

lemma from_country_succeeds:
  assumes "\<forall>r\<in>set recs. \<exists>j. iloc_position tracks (snd r) = Inr j"
  shows "\<exists>fc. from_country tracks country recs = Inr fc"
proof -
  have "\<forall>i\<in>set (map snd recs). \<exists>j. iloc_position tracks i = Inr j" using assms by simp
  from iloc_country_succeeds[OF this] show ?thesis by (auto simp: from_country_def)
qed

lemma choice_model_random_rows:
  assumes "uniform01 g"
  shows "\<exists>out g'. choice_model_random recs g = Inr (out, g')
            \<and> distinct (map fst out) \<and> fst ` set out = fst ` set recs \<and> set out \<subseteq> set recs"
proof -
  let ?users = "unique (map fst recs)"
  have mem: "u \<in> fst ` set recs" if "u \<in> set ?users" for u
    using that by (simp add: set_unique)
  have "\<exists>r h'. random_user recs u h = Inr (r, h') \<and> uniform01 h'"
    if "u \<in> set ?users" "uniform01 h" for u h
    using random_user_total[OF mem[OF that(1)] that(2)] uniform01_tail[OF that(2)] by blast
  then have "\<exists>out g'. for_each_user (random_user recs) ?users [] g = Inr (out, g')"
    using assms by (rule for_each_user_total)
  then obtain out g' where l: "for_each_user (random_user recs) ?users [] g = Inr (out, g')"
    by blast
  have "distinct (map fst out) \<and> fst ` set out = fst ` set recs \<and> set out \<subseteq> set recs"
    using l random_user_row by (rule loop_rows_all)
  then show ?thesis using l by (auto simp: choice_model_random_def)
qed

lemma choice_model_rank_based_returned:
  assumes "choice_model_rank_based recs alpha g = Inr (out, g')"
  shows "distinct (map fst out) \<and> fst ` set out = fst ` set recs \<and> set out \<subseteq> set recs"
proof -
  have l: "for_each_user (rank_based_user recs alpha) (unique (map fst recs)) [] g = Inr (out, g')"
    using assms by (simp add: choice_model_rank_based_def)
  show ?thesis using l rank_based_user_row by (rule loop_rows_all)
qed

lemma choice_model_rank_based_rows:
  assumes "uniform01 g" "0 < ranked_prob 1 alpha"
  shows "\<exists>out g'. choice_model_rank_based recs alpha g = Inr (out, g')
            \<and> distinct (map fst out) \<and> fst ` set out = fst ` set recs \<and> set out \<subseteq> set recs"
proof -
  let ?users = "unique (map fst recs)"
  have mem: "u \<in> fst ` set recs" if "u \<in> set ?users" for u
    using that by (simp add: set_unique)
  have "\<exists>r h'. rank_based_user recs alpha u h = Inr (r, h') \<and> uniform01 h'"
    if "u \<in> set ?users" "uniform01 h" for u h
    using rank_based_user_total[OF mem[OF that(1)] that(2) assms(2)] uniform01_tail[OF that(2)]
    by blast
  then have "\<exists>out g'. for_each_user (rank_based_user recs alpha) ?users [] g = Inr (out, g')"
    using assms(1) by (rule for_each_user_total)
  then obtain out g' where "choice_model_rank_based recs alpha g = Inr (out, g')"
    by (auto simp: choice_model_rank_based_def)
  then show ?thesis using choice_model_rank_based_returned by blast
qed

subsection \<open>Concrete runs\<close>

text \<open>
  A batch of two users: user 1 with the candidates 0 and 1, user 2 with the candidate 1;
  two tracks, the first from the US; a random source whose draws are all 0.
\<close>

lemma uniform01_zero: "uniform01 (\<lambda>_. 0)"
  by (simp add: uniform01_def)

lemma run_weights_user1:
  "country_p_list [(0, ''US''), (1, ''DE'')] ''US'' 0 False (1 / 10) [(1, 0), (1, 1)]
     = Inr [ranked_prob 1 (1 / 10), 0]"
  by (simp add: country_p_list_def from_country_def iloc_position_def upto.simps)

lemma run_weights_user2:
  "country_p_list [(0, ''US''), (1, ''DE'')] ''US'' 0 False (1 / 10) [(2, 1)] = Inr [0]"
  by (simp add: country_p_list_def from_country_def iloc_position_def upto.simps)

lemma run_recs_of:
  "recs_of [(1, 0), (2, 1), (1, 1)] 1 = [(1, 0), (1, 1)]"
  "recs_of [(1, 0), (2, 1), (1, 1)] 2 = [(2, 1)]"
  by (simp_all add: recs_of_def)

lemma run_user1:
  "country_centric_user [(1, 0), (2, 1), (1, 1)] [(0, ''US''), (1, ''DE'')] ''US'' 0 False (1 / 10) 1 (\<lambda>_. 0)
     = Inr (Some (1, 0), \<lambda>_. 0)"
  using ranked_prob_first_pos
  by (simp add: country_centric_user_def run_recs_of run_weights_user1
      normalize_p_def random_choice_def random_sample_def cumsum_def item_at_def max_def)

lemma run_user2:
  "country_centric_user [(1, 0), (2, 1), (1, 1)] [(0, ''US''), (1, ''DE'')] ''US'' 0 False (1 / 10) 2 (\<lambda>_. 0)
     = Inr (None, \<lambda>_. 0)"
  by (simp add: country_centric_user_def run_recs_of run_weights_user2)

lemma run_country_centric:
  "country_centric [(1, 0), (2, 1), (1, 1)] [(0, ''US''), (1, ''DE'')] ''US'' 0 False (1 / 10) (\<lambda>_. 0)
     = Inr ([(1, 0)], \<lambda>_. 0)"
  by (simp add: country_centric_def unique_def run_user1 run_user2)

lemma run_from_country_user2:
  "from_country [(0, ''US''), (1, ''DE'')] ''US'' [(2, 1)] = Inr [False]"
  by (simp add: from_country_def iloc_position_def)

lemma run_rank_based_underflow:
  "rank_based_p_list [(7, 3)] 2000 = Inl ValueError"
  "choice_model_rank_based [(7, 3)] 2000 g = Inl ValueError"
proof -
  have z: "ranked_prob 1 2000 = 0" by (rule ranked_prob_underflow) simp
  show p: "rank_based_p_list [(7, 3)] 2000 = Inl ValueError"
    by (simp add: rank_based_p_list_def normalize_p_def z)
  have "recs_of [(7, 3)] 7 = [(7, 3)]" by (simp add: recs_of_def)
  then show "choice_model_rank_based [(7, 3)] 2000 g = Inl ValueError"
    by (simp add: choice_model_rank_based_def unique_def rank_based_user_def p)
qed

lemma run_out_of_range:
  "country_p_list [(0, ''US''), (1, ''DE'')] ''US'' 0 False (1 / 10) (recs_of [(1, 0), (2, 9)] 1)
     = Inr [ranked_prob 1 (1 / 10)]"
  "country_centric [(1, 0), (2, 9)] [(0, ''US''), (1, ''DE'')] ''US'' 0 False (1 / 10) (\<lambda>_. 0)
     = Inl IndexError"
proof -
  have r1: "recs_of [(1, 0), (2, 9)] 1 = [(1, 0)]" and r2: "recs_of [(1, 0), (2, 9)] 2 = [(2, 9)]"
    by (simp_all add: recs_of_def)
  have w1: "country_p_list [(0, ''US''), (1, ''DE'')] ''US'' 0 False (1 / 10) [(1, 0)]
              = Inr [ranked_prob 1 (1 / 10)]"
    by (simp add: country_p_list_def from_country_def iloc_position_def upto.simps)
  show "country_p_list [(0, ''US''), (1, ''DE'')] ''US'' 0 False (1 / 10) (recs_of [(1, 0), (2, 9)] 1)
     = Inr [ranked_prob 1 (1 / 10)]"
    using w1 r1 by simp
  have w2: "country_p_list [(0, ''US''), (1, ''DE'')] ''US'' 0 False (1 / 10) [(2, 9)] = Inl IndexError"
    by (simp add: country_p_list_def from_country_def iloc_position_def)
  have u1: "country_centric_user [(1, 0), (2, 9)] [(0, ''US''), (1, ''DE'')] ''US'' 0 False (1 / 10) 1
              (\<lambda>_. 0) = Inr (Some (1, 0), \<lambda>_. 0)"
    using ranked_prob_first_pos
    by (simp add: country_centric_user_def r1 w1 normalize_p_def random_choice_def
        random_sample_def cumsum_def item_at_def)
  have u2: "country_centric_user [(1, 0), (2, 9)] [(0, ''US''), (1, ''DE'')] ''US'' 0 False (1 / 10) 2
              (\<lambda>_. 0) = Inl IndexError"
    by (simp add: country_centric_user_def r2 w2)
  show "country_centric [(1, 0), (2, 9)] [(0, ''US''), (1, ''DE'')] ''US'' 0 False (1 / 10) (\<lambda>_. 0)
     = Inl IndexError"
    by (simp add: country_centric_def unique_def u1 u2)
qed

lemma run_negative_chance:
  "country_p_list [(0, ''US''), (1, ''DE'')] ''US'' (- 1) False (1 / 10) (recs_of [(1, 0), (1, 1)] 1)
     = Inr [ranked_prob 1 (1 / 10), - ranked_prob 2 (1 / 10)]"
  "country_centric [(1, 0), (1, 1)] [(0, ''US''), (1, ''DE'')] ''US'' (- 1) False (1 / 10) (\<lambda>_. 0)
     = Inl ValueError"
proof -
  let ?a = "ranked_prob 1 (1 / 10)" and ?b = "ranked_prob 2 (1 / 10)"
  have r: "recs_of [(1, 0), (1, 1)] 1 = [(1, 0), (1, 1)]" by (simp add: recs_of_def)
  have w: "country_p_list [(0, ''US''), (1, ''DE'')] ''US'' (- 1) False (1 / 10) [(1, 0), (1, 1)]
             = Inr [?a, - ?b]"
    by (simp add: country_p_list_def from_country_def iloc_position_def upto.simps)
  show "country_p_list [(0, ''US''), (1, ''DE'')] ''US'' (- 1) False (1 / 10) (recs_of [(1, 0), (1, 1)] 1)
     = Inr [?a, - ?b]"
    using w r by simp
  have b: "0 < ?b" and ab: "?b < ?a" by (simp_all add: ranked_prob_ranks)
  then have m: "np_max [?a, - ?b] = Inr ?a" by (simp add: max_def)
  have s: "sum_list [?a, - ?b] = ?a - ?b" by simp
  have n: "normalize_p [?a, - ?b] = Inr [?a / (?a - ?b), - ?b / (?a - ?b)]"
    using ab by (simp add: normalize_p_def)
  have neg: "- ?b / (?a - ?b) < 0" using b ab by (simp add: divide_neg_pos)
  then have c: "random_choice (length [(1 :: int, 0 :: int), (1, 1)])
                  [?a / (?a - ?b), - ?b / (?a - ?b)] g = Inl ValueError" for g
    by (simp add: random_choice_def)
  have "?a \<noteq> 0" using b ab by linarith
  then have "country_centric_user [(1, 0), (1, 1)] [(0, ''US''), (1, ''DE'')] ''US'' (- 1) False (1 / 10) 1
          (\<lambda>_. 0) = Inl ValueError"
    using m n c by (simp add: country_centric_user_def r w del: list.size)
  then show "country_centric [(1, 0), (1, 1)] [(0, ''US''), (1, ''DE'')] ''US'' (- 1) False (1 / 10)
          (\<lambda>_. 0) = Inl ValueError"
    by (simp add: country_centric_def unique_def)
qed

subsection \<open>Which exceptions can be raised\<close>

lemma errors_of_iloc_country: "iloc_country tracks is = Inl e \<Longrightarrow> e = IndexError"
  by (induction "is") (auto simp: iloc_position_def split: sum.splits if_splits)

lemma errors_of_sample_one: "sample_one n g = Inl e \<Longrightarrow> e = ValueError"
  by (simp add: sample_one_def random_sample_def split: if_splits)

lemma errors_of_item_at: "item_at rs i = Inl e \<Longrightarrow> e = IndexError"
  by (simp add: item_at_def split: if_splits)

lemma errors_of_normalize_p: "normalize_p p = Inl e \<Longrightarrow> e = ValueError"
  by (simp add: normalize_p_def split: if_splits)

lemma errors_of_random_choice: "random_choice n p g = Inl e \<Longrightarrow> e = ValueError"
  by (simp add: random_choice_def random_sample_def Let_def split: if_splits)

lemma errors_of_np_max: "np_max w = Inl e \<Longrightarrow> e = ValueError"
  by (cases w) auto

lemma errors_of_country_p_list:
  "country_p_list tracks country ncc invert alpha recs = Inl e \<Longrightarrow> e = IndexError"
  by (auto simp: country_p_list_def from_country_def Let_def split: sum.splits
      dest: errors_of_iloc_country)

lemma errors_of_random_user:
  assumes "random_user recs u g = Inl e"
  shows "e = IndexError \<or> e = ValueError"
proof (cases "sample_one (length (recs_of recs u)) g")
  case (Inl e')
  then show ?thesis using assms errors_of_sample_one[OF Inl] by (simp add: random_user_def)
next
  case (Inr p)
  obtain i h where p: "p = (i, h)" by (cases p)
  show ?thesis
  proof (cases "item_at (recs_of recs u) i")
    case (Inl e')
    then show ?thesis using assms Inr p errors_of_item_at[OF Inl] by (simp add: random_user_def)
  next
    case it: (Inr item)
    then show ?thesis using assms Inr p by (simp add: random_user_def)
  qed
qed

lemma errors_after_weights:
  assumes "(case normalize_p w of
              Inl e \<Rightarrow> Inl e
            | Inr q \<Rightarrow> (case random_choice n q g of
                          Inl e \<Rightarrow> Inl e
                        | Inr (i, h) \<Rightarrow> (case item_at rs i of
                                           Inl e \<Rightarrow> Inl e
                                         | Inr item \<Rightarrow> Inr (f item h)))) = Inl e"
  shows "e = IndexError \<or> e = ValueError"
proof (cases "normalize_p w")
  case (Inl e')
  then show ?thesis using assms errors_of_normalize_p[OF Inl] by simp
next
  case q: (Inr q)
  show ?thesis
  proof (cases "random_choice n q g")
    case (Inl e')
    then show ?thesis using assms q errors_of_random_choice[OF Inl] by simp
  next
    case (Inr p)
    obtain i h where p: "p = (i, h)" by (cases p)
    show ?thesis
    proof (cases "item_at rs i")
      case (Inl e')
      then show ?thesis using assms q Inr p errors_of_item_at[OF Inl] by simp
    next
      case it: (Inr item)
      then show ?thesis using assms q Inr p by simp
    qed
  qed
qed

lemma errors_of_rank_based_user:
  assumes "rank_based_user recs alpha u g = Inl e"
  shows "e = IndexError \<or> e = ValueError"
  using assms unfolding rank_based_user_def rank_based_p_list_def Let_def
  by (rule errors_after_weights)

lemma errors_of_country_centric_user:
  assumes "country_centric_user recs tracks country ncc invert alpha u g = Inl e"
  shows "e = IndexError \<or> e = ValueError"
proof (cases "country_p_list tracks country ncc invert alpha (recs_of recs u)")
  case (Inl e')
  then show ?thesis using assms errors_of_country_p_list[OF Inl]
    by (simp add: country_centric_user_def)
next
  case w: (Inr w)
  show ?thesis
  proof (cases "np_max w")
    case (Inl e')
    then show ?thesis using assms w errors_of_np_max[OF Inl]
      by (simp add: country_centric_user_def)
  next
    case (Inr m)
    have m: "m \<noteq> 0" using assms w Inr by (auto simp: country_centric_user_def)
    let ?rs = "recs_of recs u"
    have "(case normalize_p w of
              Inl e \<Rightarrow> Inl e
            | Inr q \<Rightarrow> (case random_choice (length ?rs) q g of
                          Inl e \<Rightarrow> Inl e
                        | Inr (i, h) \<Rightarrow> (case item_at ?rs i of
                                           Inl e \<Rightarrow> Inl e
                                         | Inr item \<Rightarrow> Inr (Some (u, item), h)))) = Inl e"
      using assms w Inr m by (simp add: country_centric_user_def Let_def)
    then show ?thesis by (rule errors_after_weights)
  qed
qed

lemma dispatcher_error_cases:
  assumes "accept_new_recommendations choice_model recs demographics tracks k g = Inl (NotImplementedError msg)"
    and "choice_model = ''random'' \<or> choice_model = ''rank_based'' \<or> choice_model = ''us_centric'' \<or> choice_model = ''non_us_centric''"
  shows "choice_model_random recs g = Inl (NotImplementedError msg)
          \<or> choice_model_rank_based recs (1 / 10) g = Inl (NotImplementedError msg)
          \<or> (\<exists>inv. country_centric recs tracks ''US'' 0 inv (1 / 10) g = Inl (NotImplementedError msg))"
proof (cases "choice_model = ''random''")
  case True
  then show ?thesis using assms(1) by (simp add: accept_new_recommendations_def)
next
  case nr: False
  show ?thesis
  proof (cases "choice_model = ''rank_based''")
    case True
    then show ?thesis using assms(1) nr by (simp add: accept_new_recommendations_def)
  next
    case nb: False
    show ?thesis
    proof (cases "choice_model = ''us_centric''")
      case True
      then have "country_centric recs tracks ''US'' 0 False (1 / 10) g = Inl (NotImplementedError msg)"
        using assms(1) by (simp add: accept_new_recommendations_def)
      then show ?thesis by blast
    next
      case nu: False
      then have "choice_model = ''non_us_centric''" using assms(2) nr nb by blast
      then have "country_centric recs tracks ''US'' 0 True (1 / 10) g = Inl (NotImplementedError msg)"
        using assms(1) by (simp add: accept_new_recommendations_def)
      then show ?thesis by blast
    qed
  qed
qed

lemma dispatcher_unknown:
  assumes "choice_model \<notin> model_names"
  shows "accept_new_recommendations choice_model recs demographics tracks k g
        = Inl (NotImplementedError ''Unknown Choice model!'')"
  using assms by (simp add: accept_new_recommendations_def model_names_def)

lemma dispatcher_never_not_implemented:
  assumes m: "choice_model \<in> model_names"
  shows "accept_new_recommendations choice_model recs demographics tracks k g
                 \<noteq> Inl (NotImplementedError msg)"
proof
  assume e: "accept_new_recommendations choice_model recs demographics tracks k g
                 = Inl (NotImplementedError msg)"
  let ?e = "NotImplementedError msg"
  have n: "choice_model = ''random'' \<or> choice_model = ''rank_based''
            \<or> choice_model = ''us_centric'' \<or> choice_model = ''non_us_centric''"
    using m by (simp add: model_names_def)
  from dispatcher_error_cases[OF e n] consider "choice_model_random recs g = Inl ?e"
      | "choice_model_rank_based recs (1 / 10) g = Inl ?e"
      | inv where "country_centric recs tracks ''US'' 0 inv (1 / 10) g = Inl ?e"
    by blast
  then show False
  proof cases
    case 1
    then have "for_each_user (random_user recs) (unique (map fst recs)) [] g = Inl ?e"
      by (simp add: choice_model_random_def)
    from for_each_user_error[OF this] obtain u h where "random_user recs u h = Inl ?e" by blast
    from errors_of_random_user[OF this] show False by simp
  next
    case 2
    then have "for_each_user (rank_based_user recs (1 / 10)) (unique (map fst recs)) [] g = Inl ?e"
      by (simp add: choice_model_rank_based_def)
    from for_each_user_error[OF this] obtain u h where "rank_based_user recs (1 / 10) u h = Inl ?e"
      by blast
    from errors_of_rank_based_user[OF this] show False by simp
  next
    case 3
    then have "for_each_user (country_centric_user recs tracks ''US'' 0 inv (1 / 10))
                 (unique (map fst recs)) [] g = Inl ?e"
      by (simp add: country_centric_def)
    from for_each_user_error[OF this] obtain u h where
      "country_centric_user recs tracks ''US'' 0 inv (1 / 10) u h = Inl ?e" by blast
    from errors_of_country_centric_user[OF this] show False by simp
  qed
qed

lemma dispatcher_returns:
  assumes m: "choice_model \<in> model_names" and u: "uniform01 g"
    and h: "choice_model = ''random'' \<or> choice_model = ''rank_based''
              \<or> (\<forall>r\<in>set recs. \<exists>j. iloc_position tracks (snd r) = Inr j)"
  shows "\<exists>out g'. accept_new_recommendations choice_model recs demographics tracks k g = Inr (out, g')"
proof -
  from h consider "choice_model = ''random''" | "choice_model = ''rank_based''"
    | "choice_model \<noteq> ''random''" "choice_model \<noteq> ''rank_based''"
      "\<forall>r\<in>set recs. \<exists>j. iloc_position tracks (snd r) = Inr j"
    by blast
  then show ?thesis
  proof cases
    case 1
    from choice_model_random_rows[OF u, of recs] obtain out g' where
      "choice_model_random recs g = Inr (out, g')" by blast
    then show ?thesis using 1 by (simp add: accept_new_recommendations_def)
  next
    case 2
    from choice_model_rank_based_rows[OF u ranked_prob_first_pos, of recs] obtain out g' where
      "choice_model_rank_based recs (1 / 10) g = Inr (out, g')" by blast
    then show ?thesis using 2 by (simp add: accept_new_recommendations_def)
  next
    case 3
    have z: "(0 :: real) \<le> 0" by simp
    have c: "\<exists>out g'. country_centric recs tracks ''US'' 0 inv (1 / 10) g = Inr (out, g')" for inv
      using u z 3(3) by (rule country_centric_total)
    have "choice_model = ''us_centric'' \<or> choice_model = ''non_us_centric''"
      using m 3(1,2) by (simp add: model_names_def)
    then show ?thesis
    proof
      assume "choice_model = ''us_centric''"
      then show ?thesis using c[of False] by (simp add: accept_new_recommendations_def)
    next
      assume "choice_model = ''non_us_centric''"
      then show ?thesis using c[of True] by (simp add: accept_new_recommendations_def)
    qed
  qed
qed

subsection \<open>Positional lookup in the tracks\<close>

lemma iloc_country_nth:
  assumes "iloc_country tracks is = Inr cs"
  shows "\<forall>k<length is. \<exists>j. iloc_position tracks (is ! k) = Inr j \<and> cs ! k = snd (tracks ! j)"
  using assms
proof (induction "is" arbitrary: cs)
  case Nil
  then show ?case by simp
next
  case (Cons i "is")
  from Cons.prems obtain j cs' where j: "iloc_position tracks i = Inr j"
    and cs': "iloc_country tracks is = Inr cs'" and cs: "cs = snd (tracks ! j) # cs'"
    by (auto split: sum.splits)
  show ?case
  proof (intro allI impI)
    fix k assume k: "k < length (i # is)"
    show "\<exists>j. iloc_position tracks ((i # is) ! k) = Inr j \<and> cs ! k = snd (tracks ! j)"
    proof (cases k)
      case 0
      then show ?thesis using j cs by simp
    next
      case (Suc k')
      then have "k' < length is" using k by simp
      with Cons.IH[OF cs'] obtain j' where
        "iloc_position tracks (is ! k') = Inr j'" "cs' ! k' = snd (tracks ! j')" by blast
      then show ?thesis using Suc cs by simp
    qed
  qed
qed

lemma iloc_position_in_range: "iloc_position tracks i = Inr j \<Longrightarrow> j < length tracks"
  by (auto simp: iloc_position_def split: if_splits)

lemma iloc_position_nonneg: "iloc_position tracks i = Inr j \<Longrightarrow> 0 \<le> i \<Longrightarrow> int j = i"
  by (auto simp: iloc_position_def split: if_splits)

lemma aligned_lookup:
  assumes "map fst tracks = map int [0 ..< length tracks]" "j < length tracks"
  shows "map_of tracks (int j) = Some (snd (tracks ! j))"
proof -
  have d: "distinct (map fst tracks)"
    using assms(1) by (simp add: distinct_map inj_on_def)
  have "fst (tracks ! j) = int j"
    using assms by (metis nth_map nth_upt add_0 length_upt diff_zero)
  then have "(int j, snd (tracks ! j)) \<in> set tracks"
    using assms(2) by (metis nth_mem prod.collapse)
  then show ?thesis using d by simp
qed

lemma run_positions:
  "iloc_position [(0, ''US''), (1, ''DE'')] 0 = Inr 0"
  "iloc_position [(0, ''US''), (1, ''DE'')] 1 = Inr 1"
  by (simp_all add: iloc_position_def)

section \<open>Properties\<close>

subsection \<open>\<^verbatim>\<open>ranked_prob\<close>\<close>




subsection \<open>The rank-based distribution\<close>

text \<open>
  Claim C7, as amended. For a user with \<open>N \<ge> 1\<close> candidates and every \<open>alpha \<ge> 0\<close>
  at which the weight of rank 1 has not underflowed to 0, the vector that
  \<^verbatim>\<open>choice_model_rank_based\<close> passes to \<^verbatim>\<open>np.random.choice\<close> (each weight divided by the
  sum of the weights) is defined, has one entry per candidate and sums to 1; for
  \<open>N = 1\<close> it is \<open>[1]\<close>, and every draw of the random source selects the single
  candidate (position 0).
\<close>

theorem rank_based_probabilities_sum_to_one:
  assumes "1 \<le> length recs" "0 \<le> alpha" "0 < ranked_prob 1 alpha"
  shows "\<exists>p. rank_based_p_list recs alpha = Inr p \<and> length p = length recs \<and> sum_list p = 1
           \<and> (length recs = 1 \<longrightarrow> p = [1]
                 \<and> (uniform01 g \<longrightarrow> random_choice (length recs) p g = Inr (0, \<lambda>k. g (Suc k))))"
proof -
  have ne: "recs \<noteq> []" using assms(1) by auto
  from rank_based_p_list_valid[OF ne assms(3)] obtain p where
    p: "rank_based_p_list recs alpha = Inr p" "length p = length recs" "sum_list p = 1"
    by blast
  have one: "p = [1]" if "length recs = 1"
  proof -
    from that p(2) obtain x where x: "p = [x]" by (cases p) auto
    then show ?thesis using p(3) by simp
  qed
  have "random_choice (length recs) p g = Inr (0, \<lambda>k. g (Suc k))"
    if "length recs = 1" "uniform01 g"
  proof -
    have "g 0 < 1" using that(2) by (simp add: uniform01_def)
    then show ?thesis using one[OF that(1)] that(1)
      by (simp add: random_choice_def random_sample_def cumsum_def)
  qed
  then show ?thesis using p one by blast
qed

theorem rank_based_probabilities_sum_to_one_witness:
  "1 \<le> length [(7 :: int, 3 :: int)] \<and> (0 :: real) \<le> 1 / 10 \<and> 0 < ranked_prob 1 (1 / 10)
   \<and> uniform01 (\<lambda>_. 0)
   \<and> rank_based_p_list [(7, 3)] (1 / 10) = Inr [1] \<and> sum_list [1 :: real] = 1
   \<and> random_choice (length [(7 :: int, 3 :: int)]) [1] (\<lambda>_. 0) = Inr (0, \<lambda>_. 0)"
  using rank_based_probabilities_sum_to_one [of "[(7, 3)]" "1 / 10" "\<lambda>_. 0"] uniform01_zero
    ranked_prob_first_pos
  by auto

text \<open>
  The claim as stated fails: at \<open>alpha = 2000\<close> the weight of the only candidate is 0,
  the division by the sum yields no probability vector, and the model raises
  ValueError instead of selecting the candidate.
\<close>

theorem rank_based_probabilities_sum_to_one_counterexample:
  "1 \<le> length [(7 :: int, 3 :: int)] \<and> (0 :: real) \<le> 2000
   \<and> rank_based_p_list [(7, 3)] 2000 = Inl ValueError
   \<and> choice_model_rank_based [(7, 3)] 2000 (\<lambda>_. 0) = Inl ValueError"
  by (simp add: run_rank_based_underflow)

subsection \<open>One row per user\<close>

text \<open>
  Claim C9. With a random source that draws from \<open>[0, 1)\<close>: the random model, and the
  rank-based model at its default \<open>alpha = 0.1\<close> and at every \<open>alpha \<ge> 0\<close> at which
  the weight of rank 1 has not underflowed to 0, return a table in which the user ids
  are pairwise distinct, are exactly the user ids of the input, and every row
  \<open>(user_id, item_id)\<close> is a row of the input (the item is one of that user's
  candidates). Every table the rank-based model returns, at any \<open>alpha\<close>, has these
  properties; whenever the country-centric model returns a table, its user ids are
  pairwise distinct and every row is a row of the input.
\<close>

theorem one_acceptance_per_user:
  assumes "uniform01 g"
  shows "(\<exists>out g'. choice_model_random recs g = Inr (out, g')
            \<and> distinct (map fst out) \<and> fst ` set out = fst ` set recs \<and> set out \<subseteq> set recs)
       \<and> (\<exists>out g'. choice_model_rank_based recs (1 / 10) g = Inr (out, g')
            \<and> distinct (map fst out) \<and> fst ` set out = fst ` set recs \<and> set out \<subseteq> set recs)
       \<and> (0 \<le> alpha \<and> 0 < ranked_prob 1 alpha \<longrightarrow>
            (\<exists>out g'. choice_model_rank_based recs alpha g = Inr (out, g')
              \<and> distinct (map fst out) \<and> fst ` set out = fst ` set recs \<and> set out \<subseteq> set recs))
       \<and> (\<forall>out g'. choice_model_rank_based recs alpha g = Inr (out, g')
            \<longrightarrow> distinct (map fst out) \<and> fst ` set out = fst ` set recs \<and> set out \<subseteq> set recs)
       \<and> (\<forall>out g'. country_centric recs tracks country ncc invert a g = Inr (out, g')
            \<longrightarrow> distinct (map fst out) \<and> set out \<subseteq> set recs)"
proof -
  have r: "\<exists>out g'. choice_model_random recs g = Inr (out, g')
            \<and> distinct (map fst out) \<and> fst ` set out = fst ` set recs \<and> set out \<subseteq> set recs"
    using assms by (rule choice_model_random_rows)
  have d: "\<exists>out g'. choice_model_rank_based recs (1 / 10) g = Inr (out, g')
            \<and> distinct (map fst out) \<and> fst ` set out = fst ` set recs \<and> set out \<subseteq> set recs"
    using assms ranked_prob_first_pos by (rule choice_model_rank_based_rows)
  have a: "\<exists>out g'. choice_model_rank_based recs alpha g = Inr (out, g')
            \<and> distinct (map fst out) \<and> fst ` set out = fst ` set recs \<and> set out \<subseteq> set recs"
    if "0 < ranked_prob 1 alpha"
    using assms that by (rule choice_model_rank_based_rows)
  have b: "distinct (map fst out) \<and> fst ` set out = fst ` set recs \<and> set out \<subseteq> set recs"
    if "choice_model_rank_based recs alpha g = Inr (out, g')" for out g'
    using that by (rule choice_model_rank_based_returned)
  have c: "distinct (map fst out) \<and> set out \<subseteq> set recs"
    if "country_centric recs tracks country ncc invert a g = Inr (out, g')" for out g'
    using country_centric_rows[OF that] by (simp add: distinct_unique)
  show ?thesis using r d a b c by blast
qed

theorem one_acceptance_per_user_witness:
  "uniform01 (\<lambda>_. 0) \<and> (0 :: real) \<le> 1 / 10 \<and> 0 < ranked_prob 1 (1 / 10)
   \<and> (\<exists>out g'. choice_model_random [(1, 0), (2, 1), (1, 1)] (\<lambda>_. 0) = Inr (out, g')
         \<and> distinct (map fst out) \<and> fst ` set out = {1, 2} \<and> set out \<subseteq> {(1, 0), (2, 1), (1, 1)})
   \<and> (\<exists>out g'. choice_model_rank_based [(1, 0), (2, 1), (1, 1)] (1 / 10) (\<lambda>_. 0) = Inr (out, g')
         \<and> distinct (map fst out) \<and> fst ` set out = {1, 2} \<and> set out \<subseteq> {(1, 0), (2, 1), (1, 1)})
   \<and> country_centric [(1, 0), (2, 1), (1, 1)] [(0, ''US''), (1, ''DE'')] ''US'' 0 False (1 / 10) (\<lambda>_. 0)
       = Inr ([(1, 0)], \<lambda>_. 0)
   \<and> distinct (map fst [(1 :: int, 0 :: int)])
   \<and> set [(1 :: int, 0 :: int)] \<subseteq> {(1, 0), (2, 1), (1, 1)}"
  using one_acceptance_per_user [OF uniform01_zero,
      of "[(1, 0), (2, 1), (1, 1)]" "1 / 10" "[(0, ''US''), (1, ''DE'')]" "''US''" 0 False "1 / 10"]
    uniform01_zero run_country_centric ranked_prob_first_pos
  by (simp add: insert_commute)

subsection \<open>Users without an acceptable candidate\<close>

text \<open>
  Claim C4, as amended. Let every candidate's item_id be a row position of the tracks,
  \<open>non_country_chance\<close> lie in \<open>[0, 1]\<close>, and the random source draw from \<open>[0, 1)\<close>.
  Then \<^verbatim>\<open>country_centric\<close> raises nothing and returns a table, and for every user of
  the batch, with \<open>w\<close> the user's combined weights (rank weight times country
  modifier): if every weight is 0, the user has no row in the table (the loop body
  appends nothing and leaves the random source as it is); otherwise the user has
  exactly one row, with one of the user's candidates. With \<open>non_country_chance = 0\<close>,
  non-inverted, a user none of whose candidates is from the country has only zero
  weights.
\<close>

theorem country_centric_degenerate_user_skipped:
  assumes "\<forall>r\<in>set recs. \<exists>j. iloc_position tracks (snd r) = Inr j"
    and "0 \<le> ncc" and "ncc \<le> 1" and "uniform01 g" and "user_id \<in> fst ` set recs"
  shows "\<exists>w out g'.
           country_p_list tracks country ncc invert alpha (recs_of recs user_id) = Inr w
         \<and> country_centric recs tracks country ncc invert alpha g = Inr (out, g')
         \<and> length (filter (\<lambda>r. fst r = user_id) out) = (if \<forall>x\<in>set w. x = 0 then 0 else 1)
         \<and> ((\<forall>x\<in>set w. x = 0) \<longrightarrow>
               (\<forall>h. country_centric_user recs tracks country ncc invert alpha user_id h
                      = Inr (None, h)))
         \<and> (\<not> (\<forall>x\<in>set w. x = 0) \<longrightarrow>
               (\<forall>h. uniform01 h \<longrightarrow>
                  (\<exists>item_id. country_centric_user recs tracks country ncc invert alpha user_id h
                                = Inr (Some (user_id, item_id), \<lambda>k. h (Suc k))
                              \<and> (user_id, item_id) \<in> set recs)))
         \<and> (ncc = 0 \<and> \<not> invert
               \<and> (\<exists>fc. from_country tracks country (recs_of recs user_id) = Inr fc
                         \<and> (\<forall>b\<in>set fc. \<not> b))
               \<longrightarrow> (\<forall>x\<in>set w. x = 0))"
proof -
  let ?rs = "recs_of recs user_id"
  have "\<forall>r\<in>set ?rs. \<exists>j. iloc_position tracks (snd r) = Inr j"
    using assms(1) by (simp add: recs_of_def)
  from country_p_list_succeeds[OF this] obtain w where
    w: "country_p_list tracks country ncc invert alpha ?rs = Inr w" by blast
  from country_centric_total[OF assms(4) assms(2) assms(1)] obtain out g' where
    c: "country_centric recs tracks country ncc invert alpha g = Inr (out, g')" by blast
  have rne: "?rs \<noteq> []" using assms(5) by (rule recs_of_nonempty)
  from country_max_zero_iff[OF w rne assms(2)] have
    z: "np_max w \<noteq> Inr 0 \<longleftrightarrow> \<not> (\<forall>x\<in>set w. x = 0)" by auto
  have u: "user_id \<in> set (unique (map fst recs))" using assms(5) by (simp add: set_unique)
  from country_centric_rows[OF c] have
    "length (filter (\<lambda>r. fst r = user_id) out) =
       (if user_id \<in> set (unique (map fst recs))
           \<and> (case country_p_list tracks country ncc invert alpha (recs_of recs user_id) of
                 Inl e \<Rightarrow> False | Inr w \<Rightarrow> np_max w \<noteq> Inr 0) then 1 else 0)"
    by (intro count_rows_of_user) (simp_all add: distinct_unique)
  then have n: "length (filter (\<lambda>r. fst r = user_id) out) = (if \<forall>x\<in>set w. x = 0 then 0 else 1)"
    using u w z by simp
  have s: "country_centric_user recs tracks country ncc invert alpha user_id h = Inr (None, h)"
    if "\<forall>x\<in>set w. x = 0" for h
    using w assms(5) that assms(2) by (rule country_centric_user_skip)
  have a: "\<exists>item_id. country_centric_user recs tracks country ncc invert alpha user_id h
                        = Inr (Some (user_id, item_id), \<lambda>k. h (Suc k))
                      \<and> (user_id, item_id) \<in> set recs"
    if "\<not> (\<forall>x\<in>set w. x = 0)" "uniform01 h" for h
    using w assms(5) that(1) assms(2) that(2) by (rule country_centric_user_accept)
  have f: "\<forall>x\<in>set w. x = 0"
    if "ncc = 0 \<and> \<not> invert
          \<and> (\<exists>fc. from_country tracks country ?rs = Inr fc \<and> (\<forall>b\<in>set fc. \<not> b))"
  proof -
    from that obtain fc where fc: "from_country tracks country ?rs = Inr fc"
      "\<forall>b\<in>set fc. \<not> b" by blast
    have m: "map (\<lambda>x. if x then 1 else (0::real)) fc = map (\<lambda>x. 0) fc" using fc(2) by simp
    have "w = map (\<lambda>(r, m). r * m)
                (zip (map (\<lambda>i. ranked_prob i (1 / 10)) [1 .. int (length ?rs)])
                     (map (\<lambda>x. 0) fc))"
      using w that fc(1) m by (simp add: country_p_list_def Let_def)
    then show ?thesis by (auto simp: in_set_zip)
  qed
  show ?thesis
  proof (intro exI conjI)
    show "country_p_list tracks country ncc invert alpha (recs_of recs user_id) = Inr w"
      by (rule w)
    show "country_centric recs tracks country ncc invert alpha g = Inr (out, g')"
      by (rule c)
    show "length (filter (\<lambda>r. fst r = user_id) out) = (if \<forall>x\<in>set w. x = 0 then 0 else 1)"
      by (rule n)
    show "(\<forall>x\<in>set w. x = 0) \<longrightarrow>
            (\<forall>h. country_centric_user recs tracks country ncc invert alpha user_id h = Inr (None, h))"
      using s by simp
    show "\<not> (\<forall>x\<in>set w. x = 0) \<longrightarrow>
            (\<forall>h. uniform01 h \<longrightarrow>
               (\<exists>item_id. country_centric_user recs tracks country ncc invert alpha user_id h
                             = Inr (Some (user_id, item_id), \<lambda>k. h (Suc k))
                           \<and> (user_id, item_id) \<in> set recs))"
      using a by simp
    show "ncc = 0 \<and> \<not> invert
            \<and> (\<exists>fc. from_country tracks country (recs_of recs user_id) = Inr fc
                      \<and> (\<forall>b\<in>set fc. \<not> b))
            \<longrightarrow> (\<forall>x\<in>set w. x = 0)"
      using f by simp
  qed
qed

theorem country_centric_degenerate_user_skipped_witness:
  "iloc_position [(0, ''US''), (1, ''DE'')] 0 = Inr 0
   \<and> iloc_position [(0, ''US''), (1, ''DE'')] 1 = Inr 1
   \<and> (0 :: real) \<le> 0 \<and> (0 :: real) \<le> 1 \<and> uniform01 (\<lambda>_. 0)
   \<and> (2 :: int) \<in> fst ` set [(1 :: int, 0 :: int), (2, 1), (1, 1)]
   \<and> country_p_list [(0, ''US''), (1, ''DE'')] ''US'' 0 False (1 / 10)
        (recs_of [(1, 0), (2, 1), (1, 1)] 2) = Inr [0]
   \<and> from_country [(0, ''US''), (1, ''DE'')] ''US'' (recs_of [(1, 0), (2, 1), (1, 1)] 2) = Inr [False]
   \<and> country_centric_user [(1, 0), (2, 1), (1, 1)] [(0, ''US''), (1, ''DE'')] ''US'' 0 False (1 / 10) 2
        (\<lambda>_. 0) = Inr (None, \<lambda>_. 0)
   \<and> (1 :: int) \<in> fst ` set [(1 :: int, 0 :: int), (2, 1), (1, 1)]
   \<and> country_p_list [(0, ''US''), (1, ''DE'')] ''US'' 0 False (1 / 10)
        (recs_of [(1, 0), (2, 1), (1, 1)] 1) = Inr [ranked_prob 1 (1 / 10), 0]
   \<and> (\<exists>item_id. country_centric_user [(1, 0), (2, 1), (1, 1)] [(0, ''US''), (1, ''DE'')] ''US'' 0
          False (1 / 10) 1 (\<lambda>_. 0) = Inr (Some (1, item_id), \<lambda>_. 0))
   \<and> country_centric [(1, 0), (2, 1), (1, 1)] [(0, ''US''), (1, ''DE'')] ''US'' 0 False (1 / 10)
        (\<lambda>_. 0) = Inr ([(1, 0)], \<lambda>_. 0)
   \<and> length (filter (\<lambda>r. fst r = 2) [(1 :: int, 0 :: int)]) = 0
   \<and> length (filter (\<lambda>r. fst r = 1) [(1 :: int, 0 :: int)]) = 1"
  using
    country_centric_degenerate_user_skipped [of "[(1, 0), (2, 1), (1, 1)]"
      "[(0, ''US''), (1, ''DE'')]" 0 "\<lambda>_. 0" 2 "''US''" False "1 / 10"]
    country_centric_degenerate_user_skipped [of "[(1, 0), (2, 1), (1, 1)]"
      "[(0, ''US''), (1, ''DE'')]" 0 "\<lambda>_. 0" 1 "''US''" False "1 / 10"]
    uniform01_zero run_country_centric run_weights_user1 run_weights_user2 run_from_country_user2
    run_positions run_user1 run_user2
  by (simp add: run_recs_of)

text \<open>
  The claim as stated fails. A user with a non-zero weight gets no row when another
  user's candidate is no row position of the tracks: the call raises IndexError. And
  with \<open>non_country_chance = -1\<close> a user whose weights are not all 0 gets no row: the
  normalised vector has a negative entry and \<^verbatim>\<open>np.random.choice\<close> raises ValueError.
\<close>

theorem country_centric_degenerate_user_skipped_counterexample:
  "country_p_list [(0, ''US''), (1, ''DE'')] ''US'' 0 False (1 / 10) (recs_of [(1, 0), (2, 9)] 1)
     = Inr [ranked_prob 1 (1 / 10)]
   \<and> ranked_prob 1 (1 / 10) \<noteq> 0
   \<and> country_centric [(1, 0), (2, 9)] [(0, ''US''), (1, ''DE'')] ''US'' 0 False (1 / 10) (\<lambda>_. 0)
     = Inl IndexError
   \<and> country_p_list [(0, ''US''), (1, ''DE'')] ''US'' (- 1) False (1 / 10) (recs_of [(1, 0), (1, 1)] 1)
     = Inr [ranked_prob 1 (1 / 10), - ranked_prob 2 (1 / 10)]
   \<and> country_centric [(1, 0), (1, 1)] [(0, ''US''), (1, ''DE'')] ''US'' (- 1) False (1 / 10) (\<lambda>_. 0)
     = Inl ValueError"
  using ranked_prob_first_pos by (simp add: run_out_of_range run_negative_chance)

subsection \<open>The dispatcher\<close>

text \<open>
  Claim C10. \<^verbatim>\<open>accept_new_recommendations\<close> does not depend on its \<open>demographics\<close>
  and \<open>k\<close> arguments: two calls that differ only there, from the same state of the
  random source, give the same result (the same table or exception, and the same
  state of the random source afterwards).
\<close>

theorem dispatcher_ignores_demographics_and_k:
  "accept_new_recommendations choice_model recs demographics tracks k g
     = accept_new_recommendations choice_model recs demographics' tracks k' g"
  by (simp add: accept_new_recommendations_def)

text \<open>
  Claim C5, as amended. A model name outside \<open>random\<close>, \<open>rank_based\<close>,
  \<open>us_centric\<close>, \<open>non_us_centric\<close> makes \<^verbatim>\<open>accept_new_recommendations\<close> raise
  NotImplementedError with the fixed message \<^verbatim>\<open>Unknown Choice model!\<close>, whatever the
  name, and no table is returned. With one of the four names this exception is never
  raised; with draws from \<open>[0, 1)\<close> a table is returned for \<open>random\<close> and
  \<open>rank_based\<close>, and for the two country-centric names whenever every candidate's
  item_id is a row position of the tracks.
\<close>

theorem dispatcher_unknown_model:
  "(choice_model \<notin> model_names \<longrightarrow>
      accept_new_recommendations choice_model recs demographics tracks k g
        = Inl (NotImplementedError ''Unknown Choice model!''))
   \<and> (choice_model \<in> model_names \<longrightarrow>
        (\<forall>msg. accept_new_recommendations choice_model recs demographics tracks k g
                 \<noteq> Inl (NotImplementedError msg))
        \<and> (uniform01 g \<and> (choice_model = ''random'' \<or> choice_model = ''rank_based''
                           \<or> (\<forall>r\<in>set recs. \<exists>j. iloc_position tracks (snd r) = Inr j))
             \<longrightarrow> (\<exists>out g'. accept_new_recommendations choice_model recs demographics tracks k g
                              = Inr (out, g'))))"
proof (intro conjI impI allI)
  assume "choice_model \<notin> model_names"
  then show "accept_new_recommendations choice_model recs demographics tracks k g
        = Inl (NotImplementedError ''Unknown Choice model!'')"
    by (rule dispatcher_unknown)
next
  fix msg
  assume "choice_model \<in> model_names"
  then show "accept_new_recommendations choice_model recs demographics tracks k g
                 \<noteq> Inl (NotImplementedError msg)"
    by (rule dispatcher_never_not_implemented)
next
  assume m: "choice_model \<in> model_names"
  assume "uniform01 g \<and> (choice_model = ''random'' \<or> choice_model = ''rank_based''
                           \<or> (\<forall>r\<in>set recs. \<exists>j. iloc_position tracks (snd r) = Inr j))"
  then have u: "uniform01 g"
    and h: "choice_model = ''random'' \<or> choice_model = ''rank_based''
              \<or> (\<forall>r\<in>set recs. \<exists>j. iloc_position tracks (snd r) = Inr j)"
    by simp_all
  show "\<exists>out g'. accept_new_recommendations choice_model recs demographics tracks k g
                              = Inr (out, g')"
    using m u h by (rule dispatcher_returns)
qed

theorem dispatcher_unknown_model_witness:
  "''bogus'' \<notin> model_names
   \<and> accept_new_recommendations ''bogus'' [(1, 0), (2, 1), (1, 1)] [] [(0, ''US''), (1, ''DE'')] 10
        (\<lambda>_. 0) = Inl (NotImplementedError ''Unknown Choice model!'')
   \<and> ''us_centric'' \<in> model_names \<and> uniform01 (\<lambda>_. 0)
   \<and> iloc_position [(0, ''US''), (1, ''DE'')] 0 = Inr 0
   \<and> iloc_position [(0, ''US''), (1, ''DE'')] 1 = Inr 1
   \<and> accept_new_recommendations ''us_centric'' [(1, 0), (2, 1), (1, 1)] [] [(0, ''US''), (1, ''DE'')] 10
        (\<lambda>_. 0) \<noteq> Inl (NotImplementedError ''Unknown Choice model!'')
   \<and> (\<exists>out g'. accept_new_recommendations ''us_centric'' [(1, 0), (2, 1), (1, 1)] []
          [(0, ''US''), (1, ''DE'')] 10 (\<lambda>_. 0) = Inr (out, g'))"
  using
    dispatcher_unknown_model [of "''bogus''" "[(1, 0), (2, 1), (1, 1)]" "[]"
      "[(0, ''US''), (1, ''DE'')]" 10 "\<lambda>_. 0"]
    dispatcher_unknown_model [of "''us_centric''" "[(1, 0), (2, 1), (1, 1)]" "[]"
      "[(0, ''US''), (1, ''DE'')]" 10 "\<lambda>_. 0"]
    uniform01_zero run_positions
  by (simp add: model_names_def)

text \<open>
  The claim as stated fails: for the name \<open>bogus\<close> the message of the exception does
  not contain the name; and \<open>us_centric\<close> with a candidate whose item_id is no row
  position of the tracks raises IndexError instead of returning a table.
\<close>

theorem dispatcher_unknown_model_counterexample:
  "accept_new_recommendations ''bogus'' [(1, 5)] [] [(0, ''US'')] 10 (\<lambda>_. 0)
     = Inl (NotImplementedError ''Unknown Choice model!'')
   \<and> \<not> sublist ''bogus'' ''Unknown Choice model!''
   \<and> accept_new_recommendations ''us_centric'' [(1, 5)] [] [(0, ''US'')] 10 (\<lambda>_. 0)
     = Inl IndexError"
  by (simp add: accept_new_recommendations_def sublist_code(3)
      country_p_list_def from_country_def iloc_position_def recs_of_def
      country_centric_def country_centric_user_def unique_def)

subsection \<open>The country-centric weights\<close>

text \<open>
  Claim C3, as amended. When line 71 raises nothing, it yields one flag per candidate,
  and the flag of a candidate is true if and only if the row of the tracks at the
  \<^emph>\<open>row position\<close> given by the candidate's item_id (\<^verbatim>\<open>iloc\<close>: counted from 0, a
  negative one from the end) has the configured country. This is the track whose
  index label is the item_id when the index labels of the tracks are \<open>0, 1, ..., n - 1\<close>
  in row order and the item_ids are not negative.
\<close>

theorem from_country_is_positional:
  assumes "from_country tracks country recs = Inr fc"
  shows "length fc = length recs
       \<and> (\<forall>k<length recs. \<exists>j. iloc_position tracks (snd (recs ! k)) = Inr j \<and> j < length tracks
              \<and> (fc ! k \<longleftrightarrow> snd (tracks ! j) = country))
       \<and> (map fst tracks = map int [0 ..< length tracks] \<and> (\<forall>r\<in>set recs. 0 \<le> snd r)
            \<longrightarrow> (\<forall>k<length recs. fc ! k \<longleftrightarrow> map_of tracks (snd (recs ! k)) = Some country))"
proof -
  from assms obtain cs where cs: "iloc_country tracks (map snd recs) = Inr cs"
    and fc: "fc = map (\<lambda>c. c = country) cs"
    by (auto simp: from_country_def split: sum.splits)
  have l: "length fc = length recs" using assms by (rule from_country_length)
  then have lc: "length cs = length recs" using fc by simp
  have pos: "\<exists>j. iloc_position tracks (snd (recs ! k)) = Inr j \<and> j < length tracks
              \<and> (fc ! k \<longleftrightarrow> snd (tracks ! j) = country)" if "k < length recs" for k
  proof -
    from iloc_country_nth[OF cs] that obtain j where
      j: "iloc_position tracks (snd (recs ! k)) = Inr j" "cs ! k = snd (tracks ! j)" by auto
    have "fc ! k \<longleftrightarrow> cs ! k = country" using fc lc that by simp
    then show ?thesis using j iloc_position_in_range[OF j(1)] by auto
  qed
  have key: "fc ! k \<longleftrightarrow> map_of tracks (snd (recs ! k)) = Some country"
    if a: "map fst tracks = map int [0 ..< length tracks]" and n: "\<forall>r\<in>set recs. 0 \<le> snd r"
      and k: "k < length recs" for k
  proof -
    from pos[OF k] obtain j where j: "iloc_position tracks (snd (recs ! k)) = Inr j"
      "j < length tracks" "fc ! k \<longleftrightarrow> snd (tracks ! j) = country" by blast
    have "0 \<le> snd (recs ! k)" using n k by simp
    then have "int j = snd (recs ! k)" using j(1) by (simp add: iloc_position_nonneg)
    then have "map_of tracks (snd (recs ! k)) = Some (snd (tracks ! j))"
      using aligned_lookup[OF a j(2)] by simp
    then show ?thesis using j(3) by auto
  qed
  show ?thesis using l pos key by blast
qed

theorem from_country_is_positional_witness:
  "from_country [(0, ''US''), (1, ''DE'')] ''US'' [(1, 0), (1, 1)] = Inr [True, False]
   \<and> length [True, False] = length [(1 :: int, 0 :: int), (1, 1)]
   \<and> map fst [(0 :: int, ''US''), (1, ''DE'')] = map int [0 ..< length [(0 :: int, ''US''), (1, ''DE'')]]
   \<and> (0 :: int) \<le> snd (1 :: int, 0 :: int) \<and> (0 :: int) \<le> snd (1 :: int, 1 :: int)
   \<and> iloc_position [(0, ''US''), (1, ''DE'')] 0 = Inr 0
   \<and> map_of [(0 :: int, ''US''), (1, ''DE'')] 0 = Some ''US''
   \<and> map_of [(0 :: int, ''US''), (1, ''DE'')] 1 \<noteq> Some ''US''"
  using from_country_is_positional [of "[(0, ''US''), (1, ''DE'')]" "''US''" "[(1, 0), (1, 1)]"
      "[True, False]"]
  by (simp add: from_country_def iloc_position_def upt_rec)

text \<open>
  The claim as stated fails: with the tracks labelled 1 and 0 in this order, the
  candidate with item_id 0 is classified by the first row (label 1, from the US),
  although the track labelled 0 is from DE.
\<close>

theorem from_country_keyed_lookup_counterexample:
  "from_country [(1, ''US''), (0, ''DE'')] ''US'' [(7, 0)] = Inr [True]
   \<and> map_of [(1 :: int, ''US''), (0, ''DE'')] 0 = Some ''DE''
   \<and> ''DE'' \<noteq> ''US''"
  by (simp add: from_country_def iloc_position_def)

text \<open>
  Claim C2. The claim says that the weight of the candidate at rank \<open>p\<close> is
  \<open>exp (- alpha * p)\<close> times the country modifier for the \<open>alpha\<close> passed to
  \<^verbatim>\<open>country_centric\<close>. The code computes the weights with the literal \<^verbatim>\<open>0.1\<close> of
  line 74 whatever \<open>alpha\<close> is: with \<open>alpha = 1/5\<close> and one candidate from the
  country, the weight is \<open>exp (- 1/10)\<close> times the modifier, which differs from
  \<open>exp (- 1/5)\<close> times the modifier.
\<close>

theorem country_centric_alpha_unused:
  "country_p_list tracks country non_country_chance invert alpha recs
     = country_p_list tracks country non_country_chance invert (1 / 10) recs
   \<and> country_p_list [(0, ''US'')] ''US'' 0 False (1 / 5) [(1, 0)]
       = Inr [ranked_prob 1 (1 / 10) * country_p_mod 0 False True]
   \<and> ranked_prob 1 (1 / 10) * country_p_mod 0 False True
       \<noteq> ranked_prob 1 (1 / 5) * country_p_mod 0 False True"
  by (simp add: country_p_list_def from_country_def iloc_position_def country_p_mod_def
      ranked_prob_ranks)

text \<open>
  Claim C6, as amended. When every candidate's item_id is a row position of the tracks,
  \<^verbatim>\<open>country_centric\<close> with \<open>non_country_chance = 1\<close>, inverted or not, and
  \<^verbatim>\<open>choice_model_rank_based\<close>, both at the decay rate \<open>alpha = 0.1\<close>, give every user
  the same probability vector; \<^verbatim>\<open>country_centric\<close> skips no user, and from the same
  state of the random source the two models return the same result.
\<close>

theorem country_centric_chance_one_is_rank_based:
  assumes "\<forall>r\<in>set recs. \<exists>j. iloc_position tracks (snd r) = Inr j"
  shows "(\<forall>u\<in>fst ` set recs.
            \<exists>w. country_p_list tracks country 1 invert (1 / 10) (recs_of recs u) = Inr w
              \<and> np_max w \<noteq> Inr 0 \<and> normalize_p w = rank_based_p_list (recs_of recs u) (1 / 10))
       \<and> country_centric recs tracks country 1 invert (1 / 10) g = choice_model_rank_based recs (1 / 10) g"
proof
  have fc: "\<exists>fc. from_country tracks country (recs_of recs u) = Inr fc" for u
    using assms by (intro from_country_succeeds) (simp add: recs_of_def)
  show "\<forall>u\<in>fst ` set recs.
            \<exists>w. country_p_list tracks country 1 invert (1 / 10) (recs_of recs u) = Inr w
              \<and> np_max w \<noteq> Inr 0 \<and> normalize_p w = rank_based_p_list (recs_of recs u) (1 / 10)"
    using fc country_centric_user_no_bias(2) by blast
  have "country_centric_user recs tracks country 1 invert (1 / 10) u h = rank_based_user recs (1 / 10) u h"
    if "u \<in> set (unique (map fst recs))" for u h
  proof -
    have "u \<in> fst ` set recs" using that by (simp add: set_unique)
    then show ?thesis using fc country_centric_user_no_bias(1) by blast
  qed
  then show "country_centric recs tracks country 1 invert (1 / 10) g = choice_model_rank_based recs (1 / 10) g"
    unfolding country_centric_def choice_model_rank_based_def by (rule for_each_user_cong)
qed

theorem country_centric_chance_one_is_rank_based_witness:
  "iloc_position [(0, ''US''), (1, ''DE'')] 0 = Inr 0
   \<and> iloc_position [(0, ''US''), (1, ''DE'')] 1 = Inr 1
   \<and> (\<exists>w. country_p_list [(0, ''US''), (1, ''DE'')] ''US'' 1 True (1 / 10) [(1, 0), (1, 1)] = Inr w
          \<and> np_max w \<noteq> Inr 0 \<and> normalize_p w = rank_based_p_list [(1, 0), (1, 1)] (1 / 10))
   \<and> country_centric [(1, 0), (2, 1), (1, 1)] [(0, ''US''), (1, ''DE'')] ''US'' 1 True (1 / 10) (\<lambda>_. 0)
       = choice_model_rank_based [(1, 0), (2, 1), (1, 1)] (1 / 10) (\<lambda>_. 0)"
  using country_centric_chance_one_is_rank_based [of "[(1, 0), (2, 1), (1, 1)]"
      "[(0, ''US''), (1, ''DE'')]" "''US''" True "\<lambda>_. 0"] run_positions
  by (simp add: run_recs_of)

text \<open>
  The claim as stated fails for a tracks table that does not cover the candidates: with
  one track and a candidate with item_id 5, \<^verbatim>\<open>country_centric\<close> raises IndexError
  and produces no distribution, while the rank-based model selects the candidate.
\<close>

theorem country_centric_chance_one_counterexample:
  "country_p_list [(0, ''US'')] ''US'' 1 False (1 / 10) (recs_of [(1, 5)] 1) = Inl IndexError
   \<and> country_centric [(1, 5)] [(0, ''US'')] ''US'' 1 False (1 / 10) (\<lambda>_. 0) = Inl IndexError
   \<and> rank_based_p_list (recs_of [(1, 5)] 1) (1 / 10) = Inr [1]
   \<and> choice_model_rank_based [(1, 5)] (1 / 10) (\<lambda>_. 0) = Inr ([(1, 5)], \<lambda>_. 0)"
  using ranked_prob_first_pos
  by (simp add: country_p_list_def from_country_def iloc_position_def recs_of_def
      country_centric_def country_centric_user_def unique_def
      rank_based_p_list_def normalize_p_def upto.simps
      choice_model_rank_based_def rank_based_user_def random_choice_def random_sample_def
      cumsum_def item_at_def)

subsection \<open>\<^verbatim>\<open>prefilter_recommendations\<close>\<close>

text \<open>
  Claim C1. The claim says that no row of a user whose demographic country is the
  control country is returned. In the code, \<open>frozen_users\<close> is the list of the
  \<^emph>\<open>column labels\<close> of the selected demographics (iterating a frame yields its
  column labels), whatever rows the selection keeps: with users 1 (US) and 2 (DE) and
  the control country US, it is \<open>[user_id, country]\<close>, no user_id is in it, and both
  users' rows are returned.
\<close>

theorem prefilter_keeps_control_country_users:
  "prefilter_recommendations [(1, 10), (2, 20)]
     [(StrCell ''user_id'', [IntCell 1, IntCell 2]),
      (StrCell ''country'', [StrCell ''US'', StrCell ''DE''])]
     [] (Some ''US'')
   = Inr [(1, 10), (2, 20)]
   \<and> list_of_frame (loc_mask
         [(StrCell ''user_id'', [IntCell 1, IntCell 2]),
          (StrCell ''country'', [StrCell ''US'', StrCell ''DE''])]
         [True, False])
     = [StrCell ''user_id'', StrCell ''country'']"
  by (simp add: prefilter_recommendations_def get_column_def list_of_frame_def loc_mask_def
      select_mask_def)

end
